theory Spec2Isabelle
  imports Complex_Main "HOL-Library.Word"
begin

section \<open>Values\<close>

text \<open>
  The firmware computes with C \<^verbatim>\<open>float\<close>, on this target IEEE 754 binary32. A value
  is either a number or the not-a-number value the sensor driver reports on a
  failed read. An arithmetic operation takes the exact result and rounds it to the
  nearest binary32 number, ties going to the even significand. An operation with a
  not-a-number operand yields not-a-number, and every ordered comparison with it
  is false. There are no infinities here: a result too large for binary32, and a
  division by zero, where IEEE 754 answers with an infinity or not-a-number, are
  given the one non-numeric value. What comes from outside, a sensor read or an
  entry of the output tensor, may be any value; the binary32 numbers are among
  them.
\<close>

datatype float = NaN | Val real

text \<open>The nearest integer, the even one of two that are equally near.\<close>

definition round_even :: "real \<Rightarrow> int" where
  "round_even q =
     (let f = \<lfloor>q\<rfloor>; d = q - of_int f
      in if d < 1 / 2 then f
         else if 1 / 2 < d then f + 1
         else if even f then f else f + 1)"

text \<open>
  The binary exponent of a number: the \<open>e\<close> from -126 to 127 with
  \<open>2 powi e \<le> \<bar>x\<bar>\<close>, the largest there is, found by trying 127 first and going
  down; -126 for every smaller number (the subnormal numbers are spaced like the
  lowest normal ones).
\<close>

fun expo_from :: "nat \<Rightarrow> real \<Rightarrow> int" where
  "expo_from 0 x = - 126"
| "expo_from (Suc n) x = (if 2 powi (int n - 126) \<le> \<bar>x\<bar> then int n - 126 else expo_from n x)"

definition expo :: "real \<Rightarrow> int" where
  "expo x = expo_from 254 x"

text \<open>
  Rounding to binary32: 24 bits of significand, so the numbers with exponent \<open>e\<close>
  are the multiples of \<open>2 powi (e - 23)\<close>; the largest is below \<open>2 powi 128\<close>.
\<close>

definition round32 :: "real \<Rightarrow> float" where
  "round32 x =
     (let ulp = 2 powi (expo x - 23);
          y = of_int (round_even (x / ulp)) * ulp
      in if \<bar>y\<bar> < 2 powi 128 then Val y else NaN)"

fun isnan :: "float \<Rightarrow> bool" where
  "isnan NaN = True"
| "isnan (Val x) = False"

fun fadd :: "float \<Rightarrow> float \<Rightarrow> float" where
  "fadd (Val a) (Val b) = round32 (a + b)"
| "fadd _ _ = NaN"

fun fsub :: "float \<Rightarrow> float \<Rightarrow> float" where
  "fsub (Val a) (Val b) = round32 (a - b)"
| "fsub _ _ = NaN"

fun fmul :: "float \<Rightarrow> float \<Rightarrow> float" where
  "fmul (Val a) (Val b) = round32 (a * b)"
| "fmul _ _ = NaN"

fun fdiv :: "float \<Rightarrow> float \<Rightarrow> float" where
  "fdiv (Val a) (Val b) = (if b = 0 then NaN else round32 (a / b))"
| "fdiv _ _ = NaN"

text \<open>Comparing two values rounds nothing.\<close>

fun flt :: "float \<Rightarrow> float \<Rightarrow> bool" where
  "flt (Val a) (Val b) = (a < b)"
| "flt _ _ = False"

fun fgt :: "float \<Rightarrow> float \<Rightarrow> bool" where
  "fgt (Val a) (Val b) = (a > b)"
| "fgt _ _ = False"

section \<open>Configuration\<close>

text \<open>
  Lines 11 to 16 of the sketch: the normalization constants and the tensor shape.
  The arrays hold \<^verbatim>\<open>float\<close>, so each literal is stored as the binary32 number
  nearest to it.
\<close>

definition MEANS :: "float list" where
  "MEANS = [round32 25.8489, round32 71.6869, round32 1014.3396]"

definition STDS :: "float list" where
  "STDS = [round32 1.8326, round32 8.2414, round32 1.5094]"

definition HISTORY_STEPS :: nat where
  "HISTORY_STEPS = 30"

definition PREDICT_STEPS :: nat where
  "PREDICT_STEPS = 60"

definition FEATURES :: nat where
  "FEATURES = 3"

text \<open>
  The two affine maps that \<open>runForecast\<close> writes out once per feature:
  \<^verbatim>\<open>(historyBuffer[bufPos][k] - MEANS[k]) / STDS[k]\<close> on the way in and
  \<^verbatim>\<open>(out * STDS[k]) + MEANS[k]\<close> on the way out, each a pair of \<^verbatim>\<open>float\<close>
  operations, rounded one after the other.
\<close>

definition normalize :: "float \<Rightarrow> float \<Rightarrow> float \<Rightarrow> float" where
  "normalize mean std x = fdiv (fsub x mean) std"

definition denormalize :: "float \<Rightarrow> float \<Rightarrow> float \<Rightarrow> float" where
  "denormalize mean std y = fadd (fmul y std) mean"

section \<open>Observable behaviour\<close>

text \<open>
  Everything the sketch does to the outside is kept in a log, in program order:
  one entry per \<^verbatim>\<open>Serial\<close> message and one per call into the inference library.
  \<open>ForecastCall\<close> is bookkeeping, not output: \<open>runForecast\<close> enters it first, with
  the value of \<open>bufferFilled\<close> it tested and the \<open>readIdx\<close> it chose.
  \<open>ModelGetOutput i v\<close> is a read of output \<open>i\<close> that returned \<open>v\<close>. A message
  that the sketch prints as two lines in a row, or as several \<^verbatim>\<open>print\<close> calls on
  one line, is one entry: \<open>ForecastHeader\<close> (lines 151 and 152), \<open>StormWarning\<close>
  (193 and 194), \<open>RainLikely\<close> (201 and 202), \<open>ForecastRow\<close> (179 to 182),
  \<open>DebugInput\<close> (132 to 135), \<open>Live\<close> (99). \<open>HeatAlert\<close> is line 207,
  \<open>FreezeAlert\<close> 208, \<open>StatusRising\<close> 211, \<open>StatusStable\<close> 212, \<open>Footer\<close> 214.
\<close>

datatype event =
    ForecastCall bool nat
  | ModelSetInput float nat
  | ModelRunInference bool
  | ModelGetOutput nat float
  | Banner
  | BmeNotFound
  | BmeInitialized
  | ModelInitFailed
  | ModelLoaded
  | Prefilling
  | BufferReady
  | Live float
  | DebugInput float float float
  | InferenceFailed
  | ForecastHeader
  | ForecastRow nat float float float
  | AnalysisHeader
  | StormWarning
  | RainLikely
  | HeatAlert
  | FreezeAlert
  | StatusRising
  | StatusStable
  | Footer

section \<open>Program state\<close>

text \<open>
  A row of \<^verbatim>\<open>float historyBuffer[HISTORY_STEPS][FEATURES]\<close> is a triple
  (temperature, humidity, pressure). The globals of the sketch, and the static
  \<open>lastReadingTime\<close> of \<open>loop\<close> (an \<^verbatim>\<open>unsigned long\<close>, 32 bits on this target):
\<close>

type_synonym reading = "float \<times> float \<times> float"

record world =
  historyBuffer :: "reading list"
  bufferHead :: nat
  bufferFilled :: bool
  lastReadingTime :: "32 word"
  log :: "event list"

text \<open>C zero-initialises the globals.\<close>

definition zero_row :: reading where
  "zero_row = (Val 0, Val 0, Val 0)"

definition init_world :: world where
  "init_world = \<lparr> historyBuffer = replicate HISTORY_STEPS zero_row, bufferHead = 0,
                  bufferFilled = False, lastReadingTime = 0, log = [] \<rparr>"

definition emit :: "event list \<Rightarrow> world \<Rightarrow> world" where
  "emit es w = w\<lparr> log := log w @ es \<rparr>"

section \<open>The history buffer\<close>

text \<open>
  Lines 105 to 115. The head is below 30 whenever the function is called (it
  starts at 0 and the function itself keeps it there), so the write is inside
  the array; the function has no failing branch.
\<close>

definition addReading :: "float \<Rightarrow> float \<Rightarrow> float \<Rightarrow> world \<Rightarrow> world" where
  "addReading t h p w =
     (let w1 = w\<lparr> historyBuffer := (historyBuffer w)[bufferHead w := (t, h, p)] \<rparr>;
          w2 = w1\<lparr> bufferHead := bufferHead w1 + 1 \<rparr>
      in if bufferHead w2 \<ge> HISTORY_STEPS
         then w2\<lparr> bufferHead := 0, bufferFilled := True \<rparr>
         else w2)"

text \<open>A run of insertions, oldest first.\<close>

definition addReadings :: "reading list \<Rightarrow> world \<Rightarrow> world" where
  "addReadings rs w = fold (\<lambda>(t, h, p). addReading t h p) rs w"

text \<open>
  Lines 119 to 123: where \<open>runForecast\<close> starts reading, the slot it reads at
  step \<open>i\<close>, and the rows it reads at steps 0 to 29, in that order.
\<close>

definition readIdx :: "world \<Rightarrow> nat" where
  "readIdx w = (if \<not> bufferFilled w then 0 else bufferHead w)"

definition bufPos :: "nat \<Rightarrow> nat \<Rightarrow> nat" where
  "bufPos ridx i = (ridx + i) mod HISTORY_STEPS"

definition window :: "world \<Rightarrow> reading list" where
  "window w = map (\<lambda>i. historyBuffer w ! bufPos (readIdx w) i) [0..<HISTORY_STEPS]"

section \<open>The forecasting cycle\<close>

text \<open>
  Lines 122 to 142, one pass of the input loop: read the row, normalize its three
  features, print the first row, hand the three values to the library.
\<close>

definition input_step :: "reading list \<Rightarrow> nat \<Rightarrow> nat \<Rightarrow> event list \<Rightarrow> event list" where
  "input_step buf ridx i es =
     (case buf ! bufPos ridx i of (t, h, p) \<Rightarrow>
        let nT = normalize (MEANS ! 0) (STDS ! 0) t;
            nH = normalize (MEANS ! 1) (STDS ! 1) h;
            nP = normalize (MEANS ! 2) (STDS ! 2) p
        in es @ (if i = 0 then [DebugInput nT nH nP] else [])
              @ [ModelSetInput nT (i * FEATURES + 0),
                 ModelSetInput nH (i * FEATURES + 1),
                 ModelSetInput nP (i * FEATURES + 2)])"

definition input_loop :: "reading list \<Rightarrow> nat \<Rightarrow> event list" where
  "input_loop buf ridx = fold (input_step buf ridx) [0..<HISTORY_STEPS] []"

text \<open>
  Lines 154 to 184. The four locals that feed the decision engine, all starting
  at 0, and one pass of the loop over the output tensor \<open>out\<close>.
\<close>

record stats =
  currentP :: float
  futureP :: float
  maxH :: float
  futureT :: float

definition stats0 :: stats where
  "stats0 = \<lparr> currentP = Val 0, futureP = Val 0, maxH = Val 0, futureT = Val 0 \<rparr>"

definition analyse_step :: "(nat \<Rightarrow> float) \<Rightarrow> nat \<Rightarrow> stats \<times> event list \<Rightarrow> stats \<times> event list" where
  "analyse_step out step = (\<lambda>(s, es).
     let baseIdx = step * FEATURES;
         outT = out (baseIdx + 0);
         outH = out (baseIdx + 1);
         outP = out (baseIdx + 2);
         predT = denormalize (MEANS ! 0) (STDS ! 0) outT;
         predH = denormalize (MEANS ! 1) (STDS ! 1) outH;
         predP = denormalize (MEANS ! 2) (STDS ! 2) outP;
         s1 = (if step = 0 then s\<lparr> currentP := predP \<rparr> else s);
         s2 = (if step = 59 then s1\<lparr> futureP := predP, futureT := predT \<rparr> else s1);
         s3 = (if fgt predH (maxH s2) then s2\<lparr> maxH := predH \<rparr> else s2)
     in (s3,
         es @ [ModelGetOutput (baseIdx + 0) outT,
               ModelGetOutput (baseIdx + 1) outH,
               ModelGetOutput (baseIdx + 2) outP]
            @ (if (step + 1) mod 10 = 0 then [ForecastRow (step + 1) predT predH predP] else [])))"

definition analysis_loop :: "(nat \<Rightarrow> float) \<Rightarrow> stats \<times> event list" where
  "analysis_loop out = fold (analyse_step out) [0..<PREDICT_STEPS] (stats0, [])"

text \<open>
  Lines 189 to 213, the rules of the decision engine, as the messages they print.
  \<open>badWeather\<close> starts false and is set by the first two rules only. The
  thresholds are \<^verbatim>\<open>double\<close> literals, to which the \<^verbatim>\<open>float\<close> operand is widened
  without change; no binary32 number lies between 0.8 or 0.3 and the
  \<^verbatim>\<open>double\<close> nearest to it, so the comparisons are those with the decimal numbers.
\<close>

definition decision_engine :: "float \<Rightarrow> float \<Rightarrow> float \<Rightarrow> event list" where
  "decision_engine pressureDelta maxHum futureTemp =
     (let storm = flt pressureDelta (Val (- 0.8));
          rain = (flt pressureDelta (Val (- 0.3)) \<and> fgt maxHum (Val 85.0));
          badWeather = (storm \<or> rain)
      in (if storm then [StormWarning] else [])
       @ (if rain then [RainLikely] else [])
       @ (if fgt futureTemp (Val 35.0) then [HeatAlert] else [])
       @ (if flt futureTemp (Val 5.0) then [FreezeAlert] else [])
       @ (if \<not> badWeather
          then (if fgt pressureDelta (Val 0.5) then [StatusRising] else [StatusStable])
          else []))"

text \<open>
  Lines 117 to 215. \<open>inference\<close> is what the library does in this cycle: \<open>None\<close>
  when \<^verbatim>\<open>ModelRunInference()\<close> returns false, \<open>Some out\<close> when it returns true and
  \<^verbatim>\<open>ModelGetOutput(i)\<close> then returns \<open>out i\<close>.
\<close>

definition runForecast :: "(nat \<Rightarrow> float) option \<Rightarrow> world \<Rightarrow> world" where
  "runForecast inference w =
     (let ridx = readIdx w;
          w1 = emit (ForecastCall (bufferFilled w) ridx # input_loop (historyBuffer w) ridx) w
      in case inference of
           None \<Rightarrow> emit [ModelRunInference False, InferenceFailed] w1
         | Some out \<Rightarrow>
             (case analysis_loop out of (s, rows) \<Rightarrow>
                let w2 = emit ([ModelRunInference True, ForecastHeader] @ rows) w1;
                    w3 = emit [AnalysisHeader] w2;
                    pressureDelta = fsub (futureP s) (currentP s);
                    w4 = emit (decision_engine pressureDelta (maxH s) (futureT s)) w3
                in emit [Footer] w4))"

section \<open>Start-up and the periodic loop\<close>

text \<open>Lines 60 to 76, a \<^verbatim>\<open>float\<close> array again.\<close>

definition prefillData :: "reading list" where
  "prefillData = map (\<lambda>(t, h, p). (round32 t, round32 h, round32 p))
    [ (25.3950, 75.5596, 1011.2584), (25.1133, 74.9915, 1011.2528),
      (24.8733, 75.8122, 1011.2687), (24.7517, 76.1501, 1011.2537),
      (24.6300, 76.4880, 1011.2388), (24.5800, 76.9477, 1011.2078),
      (24.6000, 77.0991, 1011.2034), (24.6150, 77.3452, 1011.2026),
      (24.6425, 77.2053, 1011.2025), (24.6650, 76.7959, 1011.2147),
      (24.7233, 76.8454, 1011.1916), (24.8225, 76.5620, 1011.2219),
      (24.8200, 76.3950, 1011.2301), (24.8000, 76.1641, 1011.1937),
      (24.8850, 75.7163, 1011.2161), (24.9000, 75.7031, 1011.2365),
      (24.9500, 75.5540, 1011.2335), (24.9400, 75.3188, 1011.2362),
      (24.9750, 75.5537, 1011.2307), (25.0167, 75.6143, 1011.1697),
      (24.9850, 75.1997, 1011.1671), (24.9475, 75.3091, 1011.1870),
      (24.9333, 75.5120, 1011.1874), (24.9750, 75.3403, 1011.1866),
      (24.8933, 75.0391, 1011.1830), (24.8400, 74.8421, 1011.1948),
      (24.8750, 75.1914, 1011.1969), (24.8933, 75.3994, 1011.1791),
      (24.8933, 75.5557, 1011.1844), (24.9050, 75.9697, 1011.1694) ]"

text \<open>
  What the hardware and the library answer during \<^verbatim>\<open>setup\<close>: whether the serial
  port ever comes up, whether the sensor answers at either address, whether
  \<^verbatim>\<open>ModelInit\<close> succeeds, and the outcome of the first inference.
\<close>

record boot =
  serialUp :: bool
  bme0x76 :: bool
  bme0x77 :: bool
  modelInit :: bool
  firstInference :: "(nat \<Rightarrow> float) option"

text \<open>
  \<^verbatim>\<open>setup\<close> either hangs in one of its \<^verbatim>\<open>while\<close> loops, having printed so far,
  or returns with the program running.
\<close>

datatype outcome = Halted "event list" | Running world

text \<open>Lines 34 to 84, the function \<^verbatim>\<open>setup\<close> (a reserved word here).\<close>

definition setup_sketch :: "boot \<Rightarrow> outcome" where
  "setup_sketch b =
     (if \<not> serialUp b then Halted []
      else let w0 = emit [Banner] init_world in
        if \<not> bme0x76 b \<and> \<not> bme0x77 b then Halted (log (emit [BmeNotFound] w0))
        else let w1 = emit [BmeInitialized] w0 in
          if \<not> modelInit b then Halted (log (emit [ModelInitFailed] w1))
          else let w2 = emit [ModelLoaded, Prefilling] w1;
                   w3 = addReadings prefillData w2;
                   w4 = emit [BufferReady] w3
               in Running (runForecast (firstInference b) w4))"

text \<open>
  What one call of \<open>loop\<close> meets: the two values of \<^verbatim>\<open>millis()\<close>, the three sensor
  reads (pressure in Pa, as the driver returns it) and the outcome of the inference.
\<close>

record tick =
  millis1 :: "32 word"
  millis2 :: "32 word"
  readTemperature :: float
  readHumidity :: float
  readPressure :: float
  inference :: "(nat \<Rightarrow> float) option"

text \<open>Lines 86 to 103.\<close>

definition loop :: "tick \<Rightarrow> world \<Rightarrow> world" where
  "loop k w =
     (if millis1 k - lastReadingTime w > 60000 then
        let w1 = w\<lparr> lastReadingTime := millis2 k \<rparr>;
            t = readTemperature k;
            h = readHumidity k;
            p = fdiv (readPressure k) (Val 100.0)
        in if isnan t then w1
           else runForecast (inference k) (addReading t h p (emit [Live t] w1))
      else w)"

text \<open>The program: \<^verbatim>\<open>setup\<close> once, then \<open>loop\<close> again and again.\<close>

definition run :: "boot \<Rightarrow> tick list \<Rightarrow> outcome" where
  "run b ks = (case setup_sketch b of Halted es \<Rightarrow> Halted es | Running w \<Rightarrow> Running (fold loop ks w))"

definition trace :: "outcome \<Rightarrow> event list" where
  "trace oc = (case oc of Halted es \<Rightarrow> es | Running w \<Rightarrow> log w)"

section \<open>Vocabulary of the statements\<close>

text \<open>What one call of \<open>runForecast\<close> adds to the log.\<close>

definition cycle_events :: "(nat \<Rightarrow> float) option \<Rightarrow> world \<Rightarrow> event list" where
  "cycle_events ans w = drop (length (log w)) (log (runForecast ans w))"

text \<open>
  The denormalized forecast of a step, as lines 159 to 167 compute it from the
  output tensor, and the three components of a reading.
\<close>

definition forecast :: "(nat \<Rightarrow> float) \<Rightarrow> nat \<Rightarrow> reading" where
  "forecast out step =
     (denormalize (MEANS ! 0) (STDS ! 0) (out (step * FEATURES + 0)),
      denormalize (MEANS ! 1) (STDS ! 1) (out (step * FEATURES + 1)),
      denormalize (MEANS ! 2) (STDS ! 2) (out (step * FEATURES + 2)))"

fun temperature :: "reading \<Rightarrow> float" where
  "temperature (t, h, p) = t"

fun humidity :: "reading \<Rightarrow> float" where
  "humidity (t, h, p) = h"

fun pressure :: "reading \<Rightarrow> float" where
  "pressure (t, h, p) = p"

text \<open>The row written by the most recent \<open>addReading\<close>: the slot before the head.\<close>

definition latest :: "world \<Rightarrow> reading" where
  "latest w = historyBuffer w ! ((bufferHead w + HISTORY_STEPS - 1) mod HISTORY_STEPS)"

text \<open>Reads of the output tensor, and the messages of the decision engine.\<close>

fun is_output_read :: "event \<Rightarrow> bool" where
  "is_output_read (ModelGetOutput i v) = True"
| "is_output_read _ = False"

fun is_alert :: "event \<Rightarrow> bool" where
  "is_alert StormWarning = True"
| "is_alert RainLikely = True"
| "is_alert HeatAlert = True"
| "is_alert FreezeAlert = True"
| "is_alert _ = False"

fun is_status :: "event \<Rightarrow> bool" where
  "is_status StatusRising = True"
| "is_status StatusStable = True"
| "is_status _ = False"

text \<open>
  No call of \<open>runForecast\<close> in a log met a buffer that was not filled; and the
  same with the flag set in the state the log belongs to.
\<close>

definition calls_filled :: "event list \<Rightarrow> bool" where
  "calls_filled es \<longleftrightarrow> (\<forall>f r. ForecastCall f r \<in> set es \<longrightarrow> f)"

definition filled_inv :: "world \<Rightarrow> bool" where
  "filled_inv w \<longleftrightarrow> bufferFilled w \<and> calls_filled (log w)"

text \<open>The state in which \<^verbatim>\<open>setup\<close> makes the first call of \<open>runForecast\<close>.\<close>

definition after_prefill :: world where
  "after_prefill = emit [BufferReady]
     (addReadings prefillData (emit [Banner, BmeInitialized, ModelLoaded, Prefilling] init_world))"

subsection \<open>Concrete inputs\<close>

text \<open>
  An output tensor of zeros (every forecast step is then the mean reading); one
  whose forecast has humidity 5778289 / 65536, about 88.17, at every step and a
  pressure that falls by about 1.5094; a boot in which everything comes up; a
  tick, 70 seconds in, with the live reading 25 degrees, 70 percent, 1016 hPa;
  and one where the humidity read fails while the temperature read does not.
\<close>

definition zero_out :: "nat \<Rightarrow> float" where
  "zero_out i = Val 0"

definition humid_out :: "nat \<Rightarrow> float" where
  "humid_out i = (if i = 2 then Val 1 else if i mod 3 = 1 then Val 2 else Val 0)"

definition good_boot :: boot where
  "good_boot = \<lparr> serialUp = True, bme0x76 = True, bme0x77 = False, modelInit = True,
                 firstInference = Some zero_out \<rparr>"

definition live_tick :: tick where
  "live_tick = \<lparr> millis1 = 70000, millis2 = 70000, readTemperature = Val 25,
                 readHumidity = Val 70, readPressure = Val 101600, inference = Some zero_out \<rparr>"

definition nan_tick :: tick where
  "nan_tick = \<lparr> millis1 = 70000, millis2 = 70000, readTemperature = Val 25,
                readHumidity = NaN, readPressure = Val 101100, inference = Some zero_out \<rparr>"

subsection \<open>Invariants\<close>

text \<open>The locals of the analysis loop after its first \<open>n\<close> passes.\<close>

definition stats_upto :: "(nat \<Rightarrow> float) \<Rightarrow> nat \<Rightarrow> stats" where
  "stats_upto out n = fst (fold (analyse_step out) [0..<n] (stats0, []))"

text \<open>
  The state of the ring after the readings \<open>rs\<close> went into a buffer that held \<open>b0\<close>:
  the head has gone round with the count, the flag tells whether the count has
  reached the capacity, each of the last 30 readings sits in the slot of its
  number, and a slot not yet written holds what it held.
\<close>

definition ring_inv :: "reading list \<Rightarrow> reading list \<Rightarrow> world \<Rightarrow> bool" where
  "ring_inv b0 rs w \<longleftrightarrow>
     length (historyBuffer w) = HISTORY_STEPS \<and>
     bufferHead w = length rs mod HISTORY_STEPS \<and>
     (bufferFilled w \<longleftrightarrow> HISTORY_STEPS \<le> length rs) \<and>
     (\<forall>k < length rs. length rs \<le> k + HISTORY_STEPS \<longrightarrow>
        historyBuffer w ! (k mod HISTORY_STEPS) = rs ! k) \<and>
     (\<forall>j < HISTORY_STEPS. length rs \<le> j \<longrightarrow> historyBuffer w ! j = b0 ! j)"

section \<open>Rounding\<close>

lemma round_even_err: "\<bar>of_int (round_even q) - q\<bar> \<le> 1 / 2"
  unfolding round_even_def Let_def by (auto simp: abs_if) linarith+

lemma pow2_less_D: "(2::real) powi a < 2 powi b \<Longrightarrow> a < b"
proof (rule ccontr)
  assume lt: "(2::real) powi a < 2 powi b" and "\<not> a < b"
  then have "b \<le> a" by simp
  then have "(2::real) powi b \<le> 2 powi a" by (rule power_int_increasing) simp
  with lt show False by simp
qed

lemma pow2_mono: "a \<le> b \<Longrightarrow> (2::real) powi a \<le> 2 powi b"
  by (rule power_int_increasing) simp_all

lemma expo_from_range: "- 126 \<le> expo_from n x \<and> expo_from n x \<le> max (- 126) (int n - 127)"
  by (induction n) auto

lemma expo_range: "- 126 \<le> expo x" "expo x \<le> 127"
  using expo_from_range [of 254 x] by (simp_all add: expo_def)

lemma expo_from_eq:
  assumes "2 powi e \<le> \<bar>x\<bar>" "\<bar>x\<bar> < 2 powi (e + 1)" "- 126 \<le> e" "e \<le> int n - 127"
  shows "expo_from n x = e"
  using assms
proof (induction n)
  case 0
  then show ?case by simp
next
  case (Suc n)
  show ?case
  proof (cases "2 powi (int n - 126) \<le> \<bar>x\<bar>")
    case True
    with Suc.prems(2) have "(2::real) powi (int n - 126) < 2 powi (e + 1)" by linarith
    then have "int n - 126 < e + 1" by (rule pow2_less_D)
    with Suc.prems(4) have "e = int n - 126" by simp
    with True show ?thesis by simp
  next
    case False
    with Suc.prems(1) have "(2::real) powi e < 2 powi (int n - 126)" by linarith
    then have "e < int n - 126" by (rule pow2_less_D)
    then have "e \<le> int n - 127" by simp
    with Suc.IH [OF Suc.prems(1,2,3)] False show ?thesis by simp
  qed
qed

lemma expo_eq:
  assumes "2 powi e \<le> \<bar>x\<bar>" "\<bar>x\<bar> < 2 powi (e + 1)" "- 126 \<le> e" "e \<le> 127"
  shows "expo x = e"
  unfolding expo_def using assms by (intro expo_from_eq) simp_all

lemma expo_from_small:
  assumes "\<bar>x\<bar> < 2 powi (- 126)"
  shows "expo_from n x = - 126"
proof (induction n)
  case 0
  show ?case by simp
next
  case (Suc n)
  have "(2::real) powi (- 126) \<le> 2 powi (int n - 126)" by (rule pow2_mono) simp
  with assms have "\<not> 2 powi (int n - 126) \<le> \<bar>x\<bar>" by linarith
  with Suc show ?case by simp
qed

lemma expo_from_lower:
  assumes "2 powi (- 126) \<le> \<bar>x\<bar>"
  shows "2 powi (expo_from n x) \<le> \<bar>x\<bar>"
  using assms by (induction n) simp_all

lemma ulp_half: "2 powi (e - 23) * (1 / 2) = (2::real) powi (e - 24)"
proof -
  have "(2::real) powi ((e - 24) + 1) = 2 powi (e - 24) * 2 powi 1"
    by (rule power_int_add) simp
  moreover have "(e - 24) + 1 = e - 23" by simp
  ultimately have "(2::real) powi (e - 23) = 2 powi (e - 24) * 2" by simp
  then show ?thesis by simp
qed

lemma round_err_ulp:
  "\<bar>of_int (round_even (x / 2 powi (e - 23))) * 2 powi (e - 23) - x\<bar> \<le> 2 powi (e - 24)"
proof -
  let ?u = "(2::real) powi (e - 23)"
  have pos: "0 < ?u" by simp
  have "of_int (round_even (x / ?u)) * ?u - x = (of_int (round_even (x / ?u)) - x / ?u) * ?u"
    using pos by (simp add: field_simps)
  then have "\<bar>of_int (round_even (x / ?u)) * ?u - x\<bar> = \<bar>of_int (round_even (x / ?u)) - x / ?u\<bar> * ?u"
    using pos by (simp add: abs_mult)
  also have "\<dots> \<le> (1 / 2) * ?u"
    using round_even_err [of "x / ?u"] pos by (intro mult_right_mono) simp_all
  also have "\<dots> = 2 powi (e - 24)" using ulp_half [of e] by simp
  finally show ?thesis .
qed

lemma pow2_split: "(2::real) powi (e - 24) = 2 powi (- 24) * 2 powi e"
proof -
  have "(2::real) powi ((- 24) + e) = 2 powi (- 24) * 2 powi e"
    by (rule power_int_add) simp
  moreover have "(- 24) + e = e - 24" by simp
  ultimately show ?thesis by simp
qed

lemma round32_err:
  assumes "\<bar>x\<bar> \<le> 2 powi 127"
  shows "\<exists>y. round32 x = Val y \<and> \<bar>y - x\<bar> \<le> 2 powi (- 24) * \<bar>x\<bar> + 2 powi (- 150)"
proof -
  let ?e = "expo x"
  let ?y = "real_of_int (round_even (x / 2 powi (?e - 23))) * 2 powi (?e - 23)"
  have err: "\<bar>?y - x\<bar> \<le> 2 powi (?e - 24)" by (rule round_err_ulp)
  have bound: "2 powi (?e - 24) \<le> 2 powi (- 24) * \<bar>x\<bar> + 2 powi (- 150)"
  proof (cases "\<bar>x\<bar> < 2 powi (- 126)")
    case True
    then have "?e = - 126" by (simp add: expo_def expo_from_small)
    then have "(2::real) powi (?e - 24) = 2 powi (- 150)" by simp
    moreover have "0 \<le> 2 powi (- 24) * \<bar>x\<bar>" by simp
    ultimately show ?thesis by linarith
  next
    case False
    then have "2 powi ?e \<le> \<bar>x\<bar>" by (simp add: expo_def expo_from_lower)
    then have "2 powi (- 24) * 2 powi ?e \<le> 2 powi (- 24) * \<bar>x\<bar>"
      by (intro mult_left_mono) simp_all
    moreover have "(0::real) \<le> 2 powi (- 150)" by simp
    ultimately show ?thesis unfolding pow2_split [of ?e] by linarith
  qed
  from err bound have close: "\<bar>?y - x\<bar> \<le> 2 powi (- 24) * \<bar>x\<bar> + 2 powi (- 150)" by linarith
  have "2 powi (- 24) * \<bar>x\<bar> \<le> 2 powi (- 24) * 2 powi 127"
    using assms by (intro mult_left_mono) simp_all
  with close assms
  have "\<bar>?y\<bar> \<le> (2::real) powi 127 + 2 powi (- 24) * 2 powi 127 + 2 powi (- 150)"
    by linarith
  also have "\<dots> < (2::real) powi 128" by simp
  finally have "\<bar>?y\<bar> < 2 powi 128" .
  then have "round32 x = Val ?y" by (simp add: round32_def Let_def)
  with close show ?thesis by blast
qed

lemma round32_eval:
  assumes "2 powi e \<le> \<bar>x\<bar>" "\<bar>x\<bar> < 2 powi (e + 1)" "- 126 \<le> e" "e \<le> 126"
  shows "round32 x = Val (of_int (round_even (x / 2 powi (e - 23))) * 2 powi (e - 23))"
proof -
  from assms have e: "expo x = e" by (intro expo_eq) simp_all
  have "2 powi (e + 1) \<le> (2::real) powi 127" using assms(4) by (intro pow2_mono) simp
  with assms(2) have "\<bar>x\<bar> \<le> 2 powi 127" by linarith
  from round32_err [OF this] obtain y where "round32 x = Val y" by blast
  then show ?thesis by (simp add: round32_def Let_def e split: if_splits)
qed

lemma round32_0: "round32 0 = Val 0"
  by (simp add: round32_def round_even_def)

lemma MEANS_vals:
  "MEANS ! 0 = Val (3388067 / 131072)"
  "MEANS ! 1 = Val (9396145 / 131072)"
  "MEANS ! Suc 0 = Val (9396145 / 131072)"
  "MEANS ! 2 = Val (4154735 / 4096)"
proof -
  have "round32 25.8489 = Val (3388067 / 131072)"
    by (subst round32_eval [where e = 4]) (simp_all add: round_even_def)
  moreover have "round32 71.6869 = Val (9396145 / 131072)"
    by (subst round32_eval [where e = 6]) (simp_all add: round_even_def)
  moreover have "round32 1014.3396 = Val (4154735 / 4096)"
    by (subst round32_eval [where e = 9]) (simp_all add: round_even_def)
  ultimately show "MEANS ! 0 = Val (3388067 / 131072)"
    "MEANS ! 1 = Val (9396145 / 131072)"
    "MEANS ! Suc 0 = Val (9396145 / 131072)"
    "MEANS ! 2 = Val (4154735 / 4096)"
    by (simp_all add: MEANS_def)
qed

lemma STDS_vals:
  "STDS ! 0 = Val (15372963 / 8388608)"
  "STDS ! 1 = Val (4320867 / 524288)"
  "STDS ! Suc 0 = Val (4320867 / 524288)"
  "STDS ! 2 = Val (12661765 / 8388608)"
proof -
  have "round32 1.8326 = Val (15372963 / 8388608)"
    by (subst round32_eval [where e = 0]) (simp_all add: round_even_def)
  moreover have "round32 8.2414 = Val (4320867 / 524288)"
    by (subst round32_eval [where e = 3]) (simp_all add: round_even_def)
  moreover have "round32 1.5094 = Val (12661765 / 8388608)"
    by (subst round32_eval [where e = 0]) (simp_all add: round_even_def)
  ultimately show "STDS ! 0 = Val (15372963 / 8388608)"
    "STDS ! 1 = Val (4320867 / 524288)"
    "STDS ! Suc 0 = Val (4320867 / 524288)"
    "STDS ! 2 = Val (12661765 / 8388608)"
    by (simp_all add: STDS_def)
qed

lemma consts_range:
  assumes "k < FEATURES"
  shows "\<exists>m' s'. MEANS ! k = Val m' \<and> STDS ! k = Val s'
           \<and> 0 \<le> m' \<and> m' \<le> 1015 \<and> 1 \<le> s' \<and> s' \<le> 9"
proof -
  from assms consider "k = 0" | "k = 1" | "k = 2" unfolding FEATURES_def by linarith
  then show ?thesis
  proof cases
    case 1
    have "MEANS ! 0 = Val (3388067 / 131072) \<and> STDS ! 0 = Val (15372963 / 8388608)
        \<and> (0::real) \<le> 3388067 / 131072 \<and> (3388067 / 131072 :: real) \<le> 1015
        \<and> (1::real) \<le> 15372963 / 8388608 \<and> (15372963 / 8388608 :: real) \<le> 9"
      by (simp add: MEANS_vals STDS_vals)
    then show ?thesis unfolding 1 by blast
  next
    case 2
    have "MEANS ! 1 = Val (9396145 / 131072) \<and> STDS ! 1 = Val (4320867 / 524288)
        \<and> (0::real) \<le> 9396145 / 131072 \<and> (9396145 / 131072 :: real) \<le> 1015
        \<and> (1::real) \<le> 4320867 / 524288 \<and> (4320867 / 524288 :: real) \<le> 9"
      by (simp add: MEANS_vals STDS_vals)
    then show ?thesis unfolding 2 by blast
  next
    case 3
    have "MEANS ! 2 = Val (4154735 / 4096) \<and> STDS ! 2 = Val (12661765 / 8388608)
        \<and> (0::real) \<le> 4154735 / 4096 \<and> (4154735 / 4096 :: real) \<le> 1015
        \<and> (1::real) \<le> 12661765 / 8388608 \<and> (12661765 / 8388608 :: real) \<le> 9"
      by (simp add: MEANS_vals STDS_vals)
    then show ?thesis unfolding 3 by blast
  qed
qed

lemma round32_vals:
  "round32 (3388067 / 131072) = Val (3388067 / 131072)"
  "round32 (9396145 / 131072) = Val (9396145 / 131072)"
  "round32 (4154735 / 4096) = Val (4154735 / 4096)"
  "round32 1011 = Val 1011"
  "round32 1016 = Val 1016"
  "round32 (- (6801 / 4096)) = Val (- (6801 / 4096))"
  "round32 (4320867 / 262144) = Val (4320867 / 262144)"
  "round32 (23113157 / 262144) = Val (5778289 / 65536)"
  "round32 (12661765 / 8388608) = Val (12661765 / 8388608)"
  "round32 (8521559045 / 8388608) = Val (8321835 / 8192)"
  "round32 (- (12365 / 8192)) = Val (- (12365 / 8192))"
proof -
  show "round32 (3388067 / 131072) = Val (3388067 / 131072)"
    by (subst round32_eval [where e = 4]) (simp_all add: round_even_def)
  show "round32 (9396145 / 131072) = Val (9396145 / 131072)"
    by (subst round32_eval [where e = 6]) (simp_all add: round_even_def)
  show "round32 (4154735 / 4096) = Val (4154735 / 4096)"
    by (subst round32_eval [where e = 9]) (simp_all add: round_even_def)
  show "round32 1011 = Val 1011"
    by (subst round32_eval [where e = 9]) (simp_all add: round_even_def)
  show "round32 1016 = Val 1016"
    by (subst round32_eval [where e = 9]) (simp_all add: round_even_def)
  show "round32 (- (6801 / 4096)) = Val (- (6801 / 4096))"
    by (subst round32_eval [where e = 0]) (simp_all add: round_even_def)
  show "round32 (4320867 / 262144) = Val (4320867 / 262144)"
    by (subst round32_eval [where e = 4]) (simp_all add: round_even_def)
  show "round32 (23113157 / 262144) = Val (5778289 / 65536)"
    by (subst round32_eval [where e = 6]) (simp_all add: round_even_def)
  show "round32 (12661765 / 8388608) = Val (12661765 / 8388608)"
    by (subst round32_eval [where e = 0]) (simp_all add: round_even_def)
  show "round32 (8521559045 / 8388608) = Val (8321835 / 8192)"
    by (subst round32_eval [where e = 9]) (simp_all add: round_even_def)
  show "round32 (- (12365 / 8192)) = Val (- (12365 / 8192))"
    by (subst round32_eval [where e = 0]) (simp_all add: round_even_def)
qed

lemma roundtrip_example:
  "round32 0.001 = Val (8589935 / 8589934592)"
  "denormalize (MEANS ! 0) (STDS ! 0) (normalize (MEANS ! 0) (STDS ! 0) (round32 0.001))
       = Val (131 / 131072)"
proof -
  have r: "round32 0.001 = Val (8589935 / 8589934592)"
    by (subst round32_eval [where e = "- 10"]) (simp_all add: round_even_def)
  have a: "round32 (8589935 / 8589934592 - 3388067 / 131072) = Val (- (105873 / 4096))"
    by (subst round32_eval [where e = 4]) (simp_all add: round_even_def)
  have b: "round32 (- (105873 / 4096) / (15372963 / 8388608)) = Val (- (14789637 / 1048576))"
    by (subst round32_eval [where e = 3]) (simp_all add: round_even_def)
  have c: "round32 (- (14789637 / 1048576) * (15372963 / 8388608)) = Val (- (105873 / 4096))"
    by (subst round32_eval [where e = 4]) (simp_all add: round_even_def)
  have z: "round32 (- (105873 / 4096) + 3388067 / 131072) = Val (131 / 131072)"
    by (subst round32_eval [where e = "- 10"]) (simp_all add: round_even_def)
  have "normalize (MEANS ! 0) (STDS ! 0) (round32 0.001) = Val (- (14789637 / 1048576))"
    unfolding r MEANS_vals STDS_vals normalize_def fsub.simps a fdiv.simps
    using b by simp
  then have "denormalize (MEANS ! 0) (STDS ! 0) (normalize (MEANS ! 0) (STDS ! 0) (round32 0.001))
       = Val (131 / 131072)"
    unfolding MEANS_vals STDS_vals denormalize_def
    using c z by simp
  with r show "round32 0.001 = Val (8589935 / 8589934592)"
    "denormalize (MEANS ! 0) (STDS ! 0) (normalize (MEANS ! 0) (STDS ! 0) (round32 0.001))
       = Val (131 / 131072)"
    by simp_all
qed

lemma round32_step:
  assumes "\<bar>x\<bar> \<le> 2 ^ 70"
  obtains y where "round32 x = Val y" "\<bar>y - x\<bar> \<le> \<bar>x\<bar> / 16777216 + 2 powi (- 150)"
proof -
  have "(2::real) ^ 70 \<le> 2 powi 127" by simp
  with assms have "\<bar>x\<bar> \<le> 2 powi 127" by linarith
  from round32_err [OF this] obtain y
    where "round32 x = Val y" "\<bar>y - x\<bar> \<le> 2 powi (- 24) * \<bar>x\<bar> + 2 powi (- 150)" by blast
  then show ?thesis by (intro that [of y]) simp_all
qed

lemma roundtrip32:
  assumes r: "\<bar>r\<bar> \<le> 2 ^ 60" and m: "\<bar>m\<bar> \<le> 2 ^ 60"
    and s1: "2 powi (- 60) \<le> s" and s2: "s \<le> 2 ^ 60"
  shows "\<exists>z. denormalize (Val m) (Val s) (normalize (Val m) (Val s) (Val r)) = Val z
           \<and> \<bar>z - r\<bar> \<le> 2 powi (- 21) * (\<bar>r\<bar> + \<bar>m\<bar>) + 2 powi (- 88)"
proof -
  define \<eta> :: real where "\<eta> = 2 powi (- 150)"
  define \<delta> :: real where "\<delta> = 2 powi (- 90)"
  have \<eta>: "0 < \<eta>" "\<eta> \<le> \<delta> / 4" "\<eta> * 2 ^ 60 = \<delta>" "\<delta> \<le> 1"
    by (simp_all add: \<eta>_def \<delta>_def)
  from s1 have spos: "0 < s"
    by (meson less_le_trans zero_less_numeral zero_less_power_int)
  define S where "S = \<bar>r\<bar> + \<bar>m\<bar>"
  have S0: "0 \<le> S" and Sd: "\<bar>r - m\<bar> \<le> S" and Sr: "\<bar>r\<bar> \<le> S"
    by (simp_all add: S_def)
  have S61: "S \<le> 2305843009213693952" using r m by (simp add: S_def)
  \<comment> \<open>the subtraction\<close>
  have "\<bar>r - m\<bar> \<le> 2 ^ 70" using Sd S61 by simp
  then obtain a where a: "round32 (r - m) = Val a"
    and ea0: "\<bar>a - (r - m)\<bar> \<le> \<bar>r - m\<bar> / 16777216 + \<eta>"
    unfolding \<eta>_def by (rule round32_step)
  define e1 where "e1 = \<bar>a - (r - m)\<bar>"
  have e1: "0 \<le> e1" "e1 \<le> S / 16777216 + \<eta>"
    using ea0 Sd by (simp_all add: e1_def)
  have "\<bar>a\<bar> \<le> \<bar>a - (r - m)\<bar> + \<bar>r - m\<bar>" by linarith
  with Sd have a_le: "\<bar>a\<bar> \<le> S + e1" by (simp add: e1_def)
  have a62: "\<bar>a\<bar> \<le> 2 ^ 62" using a_le e1 S61 \<eta> by simp
  \<comment> \<open>the division\<close>
  have inv: "1 / s \<le> 2 ^ 60"
  proof -
    have "1 / s \<le> 1 / 2 powi (- 60)" using s1 by (intro divide_left_mono) simp_all
    also have "\<dots> = 2 ^ 60" by (simp add: power_int_minus)
    finally show ?thesis .
  qed
  have "\<bar>a / s\<bar> = \<bar>a\<bar> * (1 / s)" using spos by simp
  also have "\<dots> \<le> 2 ^ 62 * 2 ^ 60" using a62 inv spos by (intro mult_mono) simp_all
  finally have "\<bar>a / s\<bar> \<le> 2 ^ 62 * 2 ^ 60" .
  then have "\<bar>a / s\<bar> \<le> 2 powi 127" by simp
  from round32_err [OF this] obtain b where b: "round32 (a / s) = Val b"
    and eb: "\<bar>b - a / s\<bar> \<le> 2 powi (- 24) * \<bar>a / s\<bar> + \<eta>"
    unfolding \<eta>_def by blast
  define d where "d = (b - a / s) * s"
  have bs: "b * s = a + d" using spos by (simp add: d_def field_simps)
  have "\<bar>d\<bar> = \<bar>b - a / s\<bar> * s" using spos by (simp add: d_def abs_mult)
  also have "\<dots> \<le> (2 powi (- 24) * \<bar>a / s\<bar> + \<eta>) * s"
    using eb spos by (intro mult_right_mono) simp_all
  also have "\<dots> = \<bar>a\<bar> / 16777216 + \<eta> * s" using spos by (simp add: field_simps)
  finally have d_le0: "\<bar>d\<bar> \<le> \<bar>a\<bar> / 16777216 + \<eta> * s" .
  have "\<eta> * s \<le> \<eta> * 2 ^ 60" using s2 \<eta>(1) by (intro mult_left_mono) simp_all
  with \<eta>(3) have "\<eta> * s \<le> \<delta>" by simp
  with d_le0 have d_le: "\<bar>d\<bar> \<le> \<bar>a\<bar> / 16777216 + \<delta>" by linarith
  define e2 where "e2 = \<bar>d\<bar>"
  have "\<bar>d\<bar> \<le> S / 16777216 + e1 / 16777216 + \<delta>" using d_le a_le by linarith
  then have e2: "0 \<le> e2" "e2 \<le> S / 16777216 + e1 / 16777216 + \<delta>"
    by (simp_all add: e2_def)
  \<comment> \<open>the multiplication\<close>
  have ad: "\<bar>a + d\<bar> \<le> S + e1 + e2" using a_le by (simp add: e2_def)
  have "\<bar>b * s\<bar> \<le> 2 ^ 70" unfolding bs using ad e1 e2 S61 \<eta> by simp
  then obtain c where c: "round32 (b * s) = Val c"
    and ec0: "\<bar>c - b * s\<bar> \<le> \<bar>b * s\<bar> / 16777216 + \<eta>"
    unfolding \<eta>_def by (rule round32_step)
  define e3 where "e3 = \<bar>c - (a + d)\<bar>"
  define A3 where "A3 = \<bar>a + d\<bar>"
  have "\<bar>c - (a + d)\<bar> \<le> A3 / 16777216 + \<eta>" "A3 \<le> S + e1 + e2"
    using ec0 ad unfolding bs A3_def by simp_all
  then have "\<bar>c - (a + d)\<bar> \<le> S / 16777216 + e1 / 16777216 + e2 / 16777216 + \<eta>"
    by linarith
  then have e3: "0 \<le> e3" "e3 \<le> S / 16777216 + e1 / 16777216 + e2 / 16777216 + \<eta>"
    by (simp_all add: e3_def)
  \<comment> \<open>the addition\<close>
  have split: "c + m = (c - (a + d)) + d + (a - (r - m)) + r" by simp
  have "\<bar>(c - (a + d)) + d + (a - (r - m)) + r\<bar> \<le> e3 + e2 + e1 + \<bar>r\<bar>"
    unfolding e1_def e2_def e3_def by linarith
  then have cm: "\<bar>c + m\<bar> \<le> e3 + e2 + e1 + S" using Sr unfolding split [symmetric] by linarith
  have "\<bar>c + m\<bar> \<le> 2 ^ 70" using cm e1 e2 e3 S61 \<eta> by simp
  then obtain z where z: "round32 (c + m) = Val z"
    and ez0: "\<bar>z - (c + m)\<bar> \<le> \<bar>c + m\<bar> / 16777216 + \<eta>"
    unfolding \<eta>_def by (rule round32_step)
  define e4 where "e4 = \<bar>z - (c + m)\<bar>"
  define A4 where "A4 = \<bar>c + m\<bar>"
  have "\<bar>z - (c + m)\<bar> \<le> A4 / 16777216 + \<eta>" "A4 \<le> e3 + e2 + e1 + S"
    using ez0 cm unfolding A4_def by simp_all
  then have "\<bar>z - (c + m)\<bar> \<le> e3 / 16777216 + e2 / 16777216 + e1 / 16777216 + S / 16777216 + \<eta>"
    by linarith
  then have e4: "0 \<le> e4"
    "e4 \<le> e3 / 16777216 + e2 / 16777216 + e1 / 16777216 + S / 16777216 + \<eta>"
    by (simp_all add: e4_def)
  have "z - r = (z - (c + m)) + (c - (a + d)) + d + (a - (r - m))" by simp
  then have "\<bar>z - r\<bar> \<le> e4 + e3 + e2 + e1"
    unfolding e1_def e2_def e3_def e4_def by linarith
  also have "\<dots> \<le> S / 2097152 + 4 * \<delta>"
    using e1 e2 e3 e4 S0 \<eta> by linarith
  also have "\<dots> = 2 powi (- 21) * S + 2 powi (- 88)"
    by (simp add: \<delta>_def)
  finally have "\<bar>z - r\<bar> \<le> 2 powi (- 21) * S + 2 powi (- 88)" .
  moreover have "denormalize (Val m) (Val s) (normalize (Val m) (Val s) (Val r)) = Val z"
    using spos by (simp add: normalize_def denormalize_def a b c z)
  ultimately show ?thesis unfolding S_def by blast
qed

section \<open>The ring buffer\<close>

lemma addReading_fields:
  "historyBuffer (addReading t h p w) = (historyBuffer w)[bufferHead w := (t, h, p)]"
  "bufferHead (addReading t h p w) = (if bufferHead w + 1 \<ge> HISTORY_STEPS then 0 else bufferHead w + 1)"
  "bufferFilled (addReading t h p w) = (bufferFilled w \<or> bufferHead w + 1 \<ge> HISTORY_STEPS)"
  "lastReadingTime (addReading t h p w) = lastReadingTime w"
  "log (addReading t h p w) = log w"
  by (simp_all add: addReading_def Let_def)

lemma addReadings_snoc:
  "addReadings (rs @ [(t, h, p)]) w = addReading t h p (addReadings rs w)"
  by (simp add: addReadings_def)

lemma ring_invD:
  assumes "ring_inv b0 rs w"
  shows "length (historyBuffer w) = 30"
    and "bufferHead w = length rs mod 30"
    and "bufferFilled w \<longleftrightarrow> 30 \<le> length rs"
    and "\<And>k. k < length rs \<Longrightarrow> length rs \<le> k + 30 \<Longrightarrow> historyBuffer w ! (k mod 30) = rs ! k"
    and "\<And>j. j < 30 \<Longrightarrow> length rs \<le> j \<Longrightarrow> historyBuffer w ! j = b0 ! j"
  using assms unfolding ring_inv_def HISTORY_STEPS_def by blast+

lemma ring_invI:
  assumes "length (historyBuffer w) = 30"
    and "bufferHead w = length rs mod 30"
    and "bufferFilled w \<longleftrightarrow> 30 \<le> length rs"
    and "\<And>k. k < length rs \<Longrightarrow> length rs \<le> k + 30 \<Longrightarrow> historyBuffer w ! (k mod 30) = rs ! k"
    and "\<And>j. j < 30 \<Longrightarrow> length rs \<le> j \<Longrightarrow> historyBuffer w ! j = b0 ! j"
  shows "ring_inv b0 rs w"
  using assms unfolding ring_inv_def HISTORY_STEPS_def by blast

lemma mod_step: "(if k mod 30 + 1 \<ge> 30 then 0 else k mod 30 + 1) = (k + 1) mod (30::nat)"
proof -
  have "k mod 30 < 30" by simp
  then have "k mod 30 + 1 \<ge> 30 \<longleftrightarrow> Suc (k mod 30) = 30" by linarith
  then show ?thesis by (simp add: mod_Suc)
qed

lemma mod_distinct:
  assumes "k < K" "K < k + 30"
  shows "k mod 30 \<noteq> K mod (30::nat)"
proof
  assume "k mod 30 = K mod 30"
  then have "K mod 30 = k mod 30" by simp
  with assms(1) have "30 dvd K - k" by (simp add: mod_eq_dvd_iff_nat)
  moreover from assms have "0 < K - k" "K - k < 30" by simp_all
  ultimately show False using nat_dvd_not_less by blast
qed

lemma ring_inv_step:
  assumes "ring_inv b0 rs w"
  shows "ring_inv b0 (rs @ [(t, h, p)]) (addReading t h p w)"
proof (rule ring_invI)
  let ?K = "length rs"
  note len = ring_invD(1) [OF assms] and hd = ring_invD(2) [OF assms]
    and fl = ring_invD(3) [OF assms] and old = ring_invD(4) [OF assms]
    and fresh = ring_invD(5) [OF assms]
  show "length (historyBuffer (addReading t h p w)) = 30"
    by (simp add: addReading_fields len)
  have "bufferHead (addReading t h p w) = (?K + 1) mod 30"
    unfolding addReading_fields hd HISTORY_STEPS_def by (rule mod_step)
  then show "bufferHead (addReading t h p w) = length (rs @ [(t, h, p)]) mod 30"
    by simp
  show "bufferFilled (addReading t h p w) \<longleftrightarrow> 30 \<le> length (rs @ [(t, h, p)])"
  proof (cases "30 \<le> ?K")
    case True then show ?thesis by (simp add: addReading_fields fl)
  next
    case False
    then have "?K mod 30 = ?K" by simp
    with False show ?thesis by (simp add: addReading_fields fl hd HISTORY_STEPS_def)
  qed
  show "historyBuffer (addReading t h p w) ! (k mod 30) = (rs @ [(t, h, p)]) ! k"
    if "k < length (rs @ [(t, h, p)])" "length (rs @ [(t, h, p)]) \<le> k + 30" for k
  proof (cases "k = ?K")
    case True
    then show ?thesis by (simp add: addReading_fields hd len)
  next
    case False
    with that have lt: "k < ?K" and near: "?K < k + 30" by simp_all
    from mod_distinct [OF lt near] have "k mod 30 \<noteq> ?K mod 30" .
    then have "historyBuffer (addReading t h p w) ! (k mod 30) = historyBuffer w ! (k mod 30)"
      by (simp add: addReading_fields hd)
    also have "\<dots> = rs ! k" using lt near by (intro old) simp_all
    finally show ?thesis using lt by (simp add: nth_append)
  qed
  show "historyBuffer (addReading t h p w) ! j = b0 ! j"
    if "j < 30" "length (rs @ [(t, h, p)]) \<le> j" for j
  proof -
    from that have "?K mod 30 = ?K" "j \<noteq> ?K" "?K \<le> j" by simp_all
    then show ?thesis using that(1) by (simp add: addReading_fields hd fresh)
  qed
qed


lemma ring_inv_addReadings:
  assumes "length (historyBuffer w) = HISTORY_STEPS" "bufferHead w = 0" "\<not> bufferFilled w"
  shows "ring_inv (historyBuffer w) rs (addReadings rs w)"
proof (induction rs rule: rev_induct)
  case Nil
  with assms show ?case by (simp add: ring_inv_def addReadings_def HISTORY_STEPS_def)
next
  case (snoc r rs)
  obtain t h p where "r = (t, h, p)" by (cases r)
  with snoc show ?case by (simp add: addReadings_snoc ring_inv_step)
qed

lemma window_nth:
  "i < 30 \<Longrightarrow> window w ! i = historyBuffer w ! ((readIdx w + i) mod 30)"
  by (simp add: window_def bufPos_def HISTORY_STEPS_def)

lemma length_window: "length (window w) = 30"
  by (simp add: window_def HISTORY_STEPS_def)

lemma window_filled:
  assumes inv: "ring_inv b0 rs w" and K: "30 \<le> length rs"
  shows "window w = drop (length rs - 30) rs"
proof (rule nth_equalityI)
  show "length (window w) = length (drop (length rs - 30) rs)"
    using K by (simp add: length_window)
next
  fix i assume "i < length (window w)"
  then have i: "i < 30" by (simp add: length_window)
  let ?K = "length rs"
  let ?k = "?K - 30 + i"
  have ridx: "readIdx w = ?K mod 30"
    using K by (simp add: readIdx_def ring_invD(2,3) [OF inv])
  have "?K + i = ?k + 30" using K by simp
  then have "(?K + i) mod 30 = ?k mod 30" by (metis mod_add_self2)
  then have "(?K mod 30 + i) mod 30 = ?k mod 30" by (simp add: mod_add_left_eq)
  moreover have "historyBuffer w ! (?k mod 30) = rs ! ?k"
    using K i by (intro ring_invD(4) [OF inv]) simp_all
  ultimately have "window w ! i = rs ! ?k"
    using i by (simp add: window_nth ridx)
  then show "window w ! i = drop (length rs - 30) rs ! i"
    using K by simp
qed

lemma window_partial:
  assumes inv: "ring_inv b0 rs w" and K: "length rs < 30" and b0: "length b0 = 30"
  shows "window w = rs @ drop (length rs) b0"
proof (rule nth_equalityI)
  show "length (window w) = length (rs @ drop (length rs) b0)"
    using K b0 by (simp add: length_window)
next
  fix i assume "i < length (window w)"
  then have i: "i < 30" by (simp add: length_window)
  have ridx: "readIdx w = 0"
    using K by (simp add: readIdx_def ring_invD(3) [OF inv])
  have "historyBuffer w ! i = (rs @ drop (length rs) b0) ! i"
  proof (cases "i < length rs")
    case True
    then have "historyBuffer w ! (i mod 30) = rs ! i"
      using K by (intro ring_invD(4) [OF inv]) simp_all
    with True i show ?thesis by (simp add: nth_append)
  next
    case False
    then have "historyBuffer w ! i = b0 ! i"
      using i by (intro ring_invD(5) [OF inv]) simp_all
    with False i b0 show ?thesis by (simp add: nth_append)
  qed
  then show "window w ! i = (rs @ drop (length rs) b0) ! i"
    using i by (simp add: window_nth ridx)
qed

lemma init_world_fields:
  "historyBuffer init_world = replicate 30 zero_row"
  "bufferHead init_world = 0"
  "\<not> bufferFilled init_world"
  "log init_world = []"
  "lastReadingTime init_world = 0"
  by (simp_all add: init_world_def HISTORY_STEPS_def)

lemma ring_inv_init: "ring_inv (replicate 30 zero_row) rs (addReadings rs init_world)"
  using ring_inv_addReadings [of init_world rs]
  by (simp add: init_world_fields HISTORY_STEPS_def)

text \<open>
  C9. An insert moves the head from a position below 30 to the next position
  modulo 30, which is again below 30; it writes the one slot under the old head and
  leaves the timer and the log as they were; it has no failing branch. After any
  number of inserts from start-up, the head is that number modulo 30 and
  \<open>bufferFilled\<close> is set exactly when that number is at least 30.
\<close>

theorem addReading_invariant:
  "(bufferHead w < HISTORY_STEPS \<longrightarrow>
      bufferHead (addReading t h p w) = (bufferHead w + 1) mod HISTORY_STEPS
      \<and> bufferHead (addReading t h p w) < HISTORY_STEPS)
   \<and> historyBuffer (addReading t h p w) = (historyBuffer w)[bufferHead w := (t, h, p)]
   \<and> lastReadingTime (addReading t h p w) = lastReadingTime w
   \<and> log (addReading t h p w) = log w
   \<and> bufferHead (addReadings rs init_world) = length rs mod HISTORY_STEPS
   \<and> (bufferFilled (addReadings rs init_world) \<longleftrightarrow> HISTORY_STEPS \<le> length rs)"
proof -
  have "bufferHead (addReading t h p w) = (bufferHead w + 1) mod 30
        \<and> bufferHead (addReading t h p w) < 30" if "bufferHead w < 30"
  proof -
    from that have m: "bufferHead w mod 30 = bufferHead w" by simp
    have "bufferHead (addReading t h p w)
            = (if bufferHead w + 1 \<ge> 30 then 0 else bufferHead w + 1)"
      unfolding addReading_fields HISTORY_STEPS_def ..
    also have "\<dots> = (bufferHead w + 1) mod 30"
      using mod_step [of "bufferHead w"] unfolding m .
    finally show ?thesis by simp
  qed
  moreover note addReading_fields(1,4,5) [of t h p w]
  moreover note ring_invD(2,3) [OF ring_inv_init, of rs]
  ultimately show ?thesis by (simp add: HISTORY_STEPS_def)
qed

theorem addReading_invariant_witness:
  "bufferHead init_world < HISTORY_STEPS
   \<and> bufferHead (addReading (Val 1) (Val 2) (Val 3) init_world) = 1
   \<and> historyBuffer (addReading (Val 1) (Val 2) (Val 3) init_world)
       = (Val 1, Val 2, Val 3) # replicate 29 zero_row
   \<and> \<not> bufferFilled (addReadings [(Val 1, Val 2, Val 3)] init_world)
   \<and> bufferFilled (addReadings prefillData init_world)"
proof -
  have "length prefillData = 30" by (simp add: prefillData_def)
  moreover have "replicate 30 zero_row = zero_row # replicate 29 zero_row"
    by (simp add: numeral_eq_Suc)
  moreover note addReading_invariant [of init_world "Val 1" "Val 2" "Val 3" "[(Val 1, Val 2, Val 3)]"]
    addReading_invariant [of init_world "Val 1" "Val 2" "Val 3" prefillData]
  ultimately show ?thesis by (simp add: init_world_fields HISTORY_STEPS_def)
qed

section \<open>The normalizer\<close>

text \<open>
  C8, as claimed, fails for the tolerance. The reading 0.001 (as a binary32
  number, 8589935 / 8589934592) normalized and denormalized with the temperature
  constants comes back as 131 / 131072, which is further from it than
  0.00001 times the reading.
\<close>

theorem roundtrip_tolerance_counterexample:
  "round32 0.001 = Val (8589935 / 8589934592)
   \<and> denormalize (MEANS ! 0) (STDS ! 0) (normalize (MEANS ! 0) (STDS ! 0) (round32 0.001))
       = Val (131 / 131072)
   \<and> \<bar>131 / 131072 - 8589935 / 8589934592\<bar> > 1 / 100000 * \<bar>8589935 / 8589934592 :: real\<bar>"
  using roundtrip_example by simp

text \<open>
  C8, amended. Over the reals the round trip is exact for a positive standard
  deviation. As the code computes it, in binary32, with reading and mean of size at
  most \<open>2 ^ 60\<close> and a standard deviation between \<open>2 powi (- 60)\<close> and \<open>2 ^ 60\<close>,
  the round trip gives a number that differs from the reading by at most
  \<open>2 powi (- 21)\<close> times the sizes of reading and mean together, and
  \<open>2 powi (- 88)\<close>; so with each pair of constants of the sketch, whose means are
  below 1015.
\<close>

theorem normalize_roundtrip:
  "(0 < s \<longrightarrow> ((r - m) / s) * s + m = r)
   \<and> (\<bar>r\<bar> \<le> 2 ^ 60 \<and> \<bar>m\<bar> \<le> 2 ^ 60 \<and> 2 powi (- 60) \<le> s \<and> s \<le> 2 ^ 60 \<longrightarrow>
        (\<exists>z. denormalize (Val m) (Val s) (normalize (Val m) (Val s) (Val r)) = Val z
           \<and> \<bar>z - r\<bar> \<le> 2 powi (- 21) * (\<bar>r\<bar> + \<bar>m\<bar>) + 2 powi (- 88)))
   \<and> (k < FEATURES \<and> \<bar>r\<bar> \<le> 2 ^ 60 \<longrightarrow>
        (\<exists>z. denormalize (MEANS ! k) (STDS ! k) (normalize (MEANS ! k) (STDS ! k) (Val r)) = Val z
           \<and> \<bar>z - r\<bar> \<le> 2 powi (- 21) * (\<bar>r\<bar> + 1015) + 2 powi (- 88)))"
proof (intro conjI impI)
  assume "0 < s"
  then show "((r - m) / s) * s + m = r" by simp
next
  assume "\<bar>r\<bar> \<le> 2 ^ 60 \<and> \<bar>m\<bar> \<le> 2 ^ 60 \<and> 2 powi (- 60) \<le> s \<and> s \<le> 2 ^ 60"
  then show "\<exists>z. denormalize (Val m) (Val s) (normalize (Val m) (Val s) (Val r)) = Val z
           \<and> \<bar>z - r\<bar> \<le> 2 powi (- 21) * (\<bar>r\<bar> + \<bar>m\<bar>) + 2 powi (- 88)"
    by (intro roundtrip32) simp_all
next
  assume kr: "k < FEATURES \<and> \<bar>r\<bar> \<le> 2 ^ 60"
  then have r: "\<bar>r\<bar> \<le> 2 ^ 60" and "k < FEATURES" by simp_all
  from consts_range [OF this(2)]
  obtain m' s' where ms: "MEANS ! k = Val m'" "STDS ! k = Val s'"
    and m': "0 \<le> m'" "m' \<le> 1015" and s': "1 \<le> s'" "s' \<le> 9"
    by blast
  have "\<bar>m'\<bar> \<le> 2 ^ 60" "2 powi (- 60) \<le> s'" "s' \<le> 2 ^ 60"
    using m' s' by (simp_all add: power_int_minus field_simps)
  from roundtrip32 [OF r this] obtain z
    where z: "denormalize (Val m') (Val s') (normalize (Val m') (Val s') (Val r)) = Val z"
      and "\<bar>z - r\<bar> \<le> 2 powi (- 21) * (\<bar>r\<bar> + \<bar>m'\<bar>) + 2 powi (- 88)"
    by blast
  moreover have "2 powi (- 21) * (\<bar>r\<bar> + \<bar>m'\<bar>) \<le> 2 powi (- 21) * (\<bar>r\<bar> + 1015)"
    using m' by (intro mult_left_mono) simp_all
  ultimately have "\<bar>z - r\<bar> \<le> 2 powi (- 21) * (\<bar>r\<bar> + 1015) + 2 powi (- 88)"
    by linarith
  with z show "\<exists>z. denormalize (MEANS ! k) (STDS ! k) (normalize (MEANS ! k) (STDS ! k) (Val r)) = Val z
           \<and> \<bar>z - r\<bar> \<le> 2 powi (- 21) * (\<bar>r\<bar> + 1015) + 2 powi (- 88)"
    unfolding ms by blast
qed

theorem normalize_roundtrip_witness:
  "(0::real) < 1.5094
   \<and> ((1011.2584 - 1014.3396) / 1.5094) * 1.5094 + 1014.3396 = (1011.2584 :: real)
   \<and> (0::nat) < FEATURES
   \<and> \<bar>8589935 / 8589934592 :: real\<bar> \<le> 2 ^ 60
   \<and> denormalize (MEANS ! 0) (STDS ! 0) (normalize (MEANS ! 0) (STDS ! 0) (Val (8589935 / 8589934592)))
       = Val (131 / 131072)
   \<and> \<bar>131 / 131072 - 8589935 / 8589934592\<bar>
       \<le> 2 powi (- 21) * (\<bar>8589935 / 8589934592 :: real\<bar> + 1015) + 2 powi (- 88)"
proof -
  note main = normalize_roundtrip [of "1.5094" "1011.2584" "1014.3396" 0]
    normalize_roundtrip [of 1 "8589935 / 8589934592" 0 0]
  have k: "(0::nat) < FEATURES" by (simp add: FEATURES_def)
  have r: "\<bar>8589935 / 8589934592 :: real\<bar> \<le> 2 ^ 60" by simp
  from main(2) k r obtain z
    where "denormalize (MEANS ! 0) (STDS ! 0) (normalize (MEANS ! 0) (STDS ! 0) (Val (8589935 / 8589934592))) = Val z"
      and "\<bar>z - 8589935 / 8589934592\<bar> \<le> 2 powi (- 21) * (\<bar>8589935 / 8589934592 :: real\<bar> + 1015) + 2 powi (- 88)"
    by blast
  moreover have "denormalize (MEANS ! 0) (STDS ! 0) (normalize (MEANS ! 0) (STDS ! 0) (Val (8589935 / 8589934592)))
       = Val (131 / 131072)"
    using roundtrip_example by simp
  ultimately have "\<bar>131 / 131072 - 8589935 / 8589934592\<bar>
       \<le> 2 powi (- 21) * (\<bar>8589935 / 8589934592 :: real\<bar> + 1015) + 2 powi (- 88)"
    by simp
  with main(1) k r \<open>denormalize (MEANS ! 0) (STDS ! 0) (normalize (MEANS ! 0) (STDS ! 0) (Val (8589935 / 8589934592)))
       = Val (131 / 131072)\<close>
  show ?thesis by simp
qed

section \<open>The decision engine\<close>



text \<open>
  C2, as claimed, fails: with a forecast temperature of 36.2 and a pressure change
  of +0.1 the heat alert fires and the status line is printed all the same.
\<close>

theorem status_with_heat_counterexample:
  "decision_engine (Val 0.1) (Val 60) (Val 36.2) = [HeatAlert, StatusStable]"
  by (simp add: decision_engine_def Let_def)

text \<open>
  C2, amended. A status line is printed exactly when neither the storm rule nor
  the rain rule fired; the heat and freeze alerts do not hold it back.
\<close>

theorem status_iff_no_pressure_alert:
  "(\<exists>e \<in> set (decision_engine d mH fT). is_status e) \<longleftrightarrow>
     StormWarning \<notin> set (decision_engine d mH fT) \<and> RainLikely \<notin> set (decision_engine d mH fT)"
  by (auto simp: decision_engine_def Let_def)

theorem status_iff_no_pressure_alert_witness:
  "(\<exists>e \<in> set (decision_engine (Val 0.1) (Val 60) (Val 36.2)). is_status e)
   \<and> StormWarning \<notin> set (decision_engine (Val 0.1) (Val 60) (Val 36.2))
   \<and> RainLikely \<notin> set (decision_engine (Val 0.1) (Val 60) (Val 36.2))
   \<and> HeatAlert \<in> set (decision_engine (Val 0.1) (Val 60) (Val 36.2))"
  using status_iff_no_pressure_alert [of "Val 0.1" "Val 60" "Val 36.2"]
  by (simp add: decision_engine_def Let_def)

section \<open>The structure of a cycle\<close>

lemma emit_fields:
  "log (emit es w) = log w @ es"
  "historyBuffer (emit es w) = historyBuffer w"
  "bufferHead (emit es w) = bufferHead w"
  "bufferFilled (emit es w) = bufferFilled w"
  "lastReadingTime (emit es w) = lastReadingTime w"
  by (simp_all add: emit_def)

lemma runForecast_log:
  "log (runForecast ans w) = log w @
     ForecastCall (bufferFilled w) (readIdx w) # input_loop (historyBuffer w) (readIdx w) @
     (case ans of
        None \<Rightarrow> [ModelRunInference False, InferenceFailed]
      | Some out \<Rightarrow>
          [ModelRunInference True, ForecastHeader] @ snd (analysis_loop out) @ [AnalysisHeader] @
          decision_engine (fsub (futureP (fst (analysis_loop out))) (currentP (fst (analysis_loop out))))
            (maxH (fst (analysis_loop out))) (futureT (fst (analysis_loop out))) @ [Footer])"
  by (simp add: runForecast_def Let_def emit_fields split: option.split prod.split)

lemma runForecast_fields:
  "historyBuffer (runForecast ans w) = historyBuffer w"
  "bufferHead (runForecast ans w) = bufferHead w"
  "bufferFilled (runForecast ans w) = bufferFilled w"
  "lastReadingTime (runForecast ans w) = lastReadingTime w"
  by (simp_all add: runForecast_def Let_def emit_fields split: option.split prod.split)

lemma cycle_events_eq:
  "cycle_events ans w =
     ForecastCall (bufferFilled w) (readIdx w) # input_loop (historyBuffer w) (readIdx w) @
     (case ans of
        None \<Rightarrow> [ModelRunInference False, InferenceFailed]
      | Some out \<Rightarrow>
          [ModelRunInference True, ForecastHeader] @ snd (analysis_loop out) @ [AnalysisHeader] @
          decision_engine (fsub (futureP (fst (analysis_loop out))) (currentP (fst (analysis_loop out))))
            (maxH (fst (analysis_loop out))) (futureT (fst (analysis_loop out))) @ [Footer])"
  unfolding cycle_events_def runForecast_log by simp

lemma log_runForecast: "log (runForecast ans w) = log w @ cycle_events ans w"
  unfolding cycle_events_eq by (rule runForecast_log)

lemma input_step_append: "input_step buf r i es = es @ input_step buf r i []"
  by (simp add: input_step_def Let_def split: prod.split)

lemma fold_input_step:
  "fold (input_step buf r) xs es = es @ concat (map (\<lambda>i. input_step buf r i []) xs)"
proof (induction xs arbitrary: es)
  case Nil
  show ?case by simp
next
  case (Cons x xs)
  show ?case
    unfolding fold_simps Cons.IH by (subst input_step_append) simp
qed

lemma input_loop_concat:
  "input_loop buf r = concat (map (\<lambda>i. input_step buf r i []) [0..<HISTORY_STEPS])"
  by (simp add: input_loop_def fold_input_step)

lemma input_step_events:
  "e \<in> set (input_step buf r i []) \<Longrightarrow> (\<exists>v n. e = ModelSetInput v n) \<or> (\<exists>a b c. e = DebugInput a b c)"
  by (auto simp: input_step_def Let_def split: prod.splits if_splits)

lemma input_loop_events:
  "e \<in> set (input_loop buf r) \<Longrightarrow> (\<exists>v n. e = ModelSetInput v n) \<or> (\<exists>a b c. e = DebugInput a b c)"
  unfolding input_loop_concat using input_step_events by fastforce

lemma analyse_step_snd:
  "snd (analyse_step out i (s, es)) = es @ snd (analyse_step out i (stats0, []))"
  by (simp add: analyse_step_def Let_def)

lemma analyse_step_fst:
  "fst (analyse_step out i (s, es)) = fst (analyse_step out i (s, []))"
  by (simp add: analyse_step_def Let_def)


lemma analyse_step_stats:
  "currentP (fst (analyse_step out i (s, es))) = (if i = 0 then pressure (forecast out i) else currentP s)"
  "futureP (fst (analyse_step out i (s, es))) = (if i = 59 then pressure (forecast out i) else futureP s)"
  "futureT (fst (analyse_step out i (s, es))) = (if i = 59 then temperature (forecast out i) else futureT s)"
  "maxH (fst (analyse_step out i (s, es))) =
     (if fgt (humidity (forecast out i)) (maxH s) then humidity (forecast out i) else maxH s)"
  by (simp_all add: analyse_step_def Let_def forecast_def)

lemma analyse_step_events:
  "e \<in> set (snd (analyse_step out i (s, []))) \<Longrightarrow>
     (\<exists>n v. e = ModelGetOutput n v) \<or> (\<exists>n a b c. e = ForecastRow n a b c)"
  by (auto simp: analyse_step_def Let_def split: if_splits)

lemma fold_analyse_events:
  "e \<in> set (snd (fold (analyse_step out) xs (s, es))) \<Longrightarrow>
     e \<in> set es \<or> (\<exists>n v. e = ModelGetOutput n v) \<or> (\<exists>n a b c. e = ForecastRow n a b c)"
proof (induction xs arbitrary: s es)
  case Nil
  then show ?case by simp
next
  case (Cons x xs)
  obtain s' es' where st: "analyse_step out x (s, es) = (s', es')" by (cases "analyse_step out x (s, es)")
  from Cons.prems have "e \<in> set (snd (fold (analyse_step out) xs (s', es')))"
    by (simp add: st)
  from Cons.IH [OF this] consider "e \<in> set es'" | "(\<exists>n v. e = ModelGetOutput n v) \<or> (\<exists>n a b c. e = ForecastRow n a b c)"
    by blast
  then show ?case
  proof cases
    case 1
    from st have "es' = es @ snd (analyse_step out x (stats0, []))"
      using analyse_step_snd [of out x s es] by simp
    with 1 analyse_step_events [of e out x stats0] show ?thesis by auto
  next
    case 2
    then show ?thesis by blast
  qed
qed

lemma analysis_loop_events:
  "e \<in> set (snd (analysis_loop out)) \<Longrightarrow>
     (\<exists>n v. e = ModelGetOutput n v) \<or> (\<exists>n a b c. e = ForecastRow n a b c)"
  unfolding analysis_loop_def using fold_analyse_events [of e out _ stats0 "[]"] by simp

lemma stats_upto_0: "stats_upto out 0 = stats0"
  by (simp add: stats_upto_def)

lemma stats_upto_Suc:
  "stats_upto out (Suc n) =
     fst (analyse_step out n (stats_upto out n, snd (fold (analyse_step out) [0..<n] (stats0, []))))"
  by (simp add: stats_upto_def)

lemma currentP_upto:
  "currentP (stats_upto out n) = (if n = 0 then Val 0 else pressure (forecast out 0))"
  by (induction n) (simp_all add: stats_upto_0 stats_upto_Suc analyse_step_stats stats0_def)

lemma futureP_upto:
  "futureP (stats_upto out n) = (if n \<le> 59 then Val 0 else pressure (forecast out 59))"
  by (induction n) (auto simp add: stats_upto_0 stats_upto_Suc analyse_step_stats stats0_def)

lemma futureT_upto:
  "futureT (stats_upto out n) = (if n \<le> 59 then Val 0 else temperature (forecast out 59))"
  by (induction n) (auto simp add: stats_upto_0 stats_upto_Suc analyse_step_stats stats0_def)

lemma fgt_max_step:
  assumes "m = Val x"
  shows "fgt (if fgt h m then h else m) (Val c) \<longleftrightarrow> fgt m (Val c) \<or> fgt h (Val c)"
  using assms by (cases h) auto

lemma max_step_Val:
  assumes "m = Val x"
  shows "\<exists>y. (if fgt h m then h else m) = Val y"
  using assms by (cases h) auto

lemma maxH_upto_Val: "\<exists>x. maxH (stats_upto out n) = Val x"
proof (induction n)
  case 0
  show ?case by (simp add: stats_upto_0 stats0_def)
next
  case (Suc n)
  then obtain x where "maxH (stats_upto out n) = Val x" ..
  from max_step_Val [OF this] show ?case
    by (simp add: stats_upto_Suc analyse_step_stats)
qed

lemma maxH_upto_gt:
  "fgt (maxH (stats_upto out n)) (Val c) \<longleftrightarrow>
     c < 0 \<or> (\<exists>i<n. fgt (humidity (forecast out i)) (Val c))"
proof (induction n)
  case 0
  show ?case by (simp add: stats_upto_0 stats0_def)
next
  case (Suc n)
  obtain x where "maxH (stats_upto out n) = Val x" using maxH_upto_Val ..
  from fgt_max_step [OF this]
  have "fgt (maxH (stats_upto out (Suc n))) (Val c) \<longleftrightarrow>
          fgt (maxH (stats_upto out n)) (Val c) \<or> fgt (humidity (forecast out n)) (Val c)"
    by (simp add: stats_upto_Suc analyse_step_stats)
  with Suc show ?case by (auto simp: less_Suc_eq)
qed

lemma analysis_loop_stats: "fst (analysis_loop out) = stats_upto out 60"
  by (simp add: analysis_loop_def stats_upto_def PREDICT_STEPS_def)

lemma analysis_loop_fields:
  "currentP (fst (analysis_loop out)) = pressure (forecast out 0)"
  "futureP (fst (analysis_loop out)) = pressure (forecast out 59)"
  "futureT (fst (analysis_loop out)) = temperature (forecast out 59)"
  by (simp_all add: analysis_loop_stats currentP_upto futureP_upto futureT_upto)

lemma analysis_loop_maxH:
  "0 \<le> c \<Longrightarrow> fgt (maxH (fst (analysis_loop out))) (Val c) \<longleftrightarrow>
     (\<exists>i<60. fgt (humidity (forecast out i)) (Val c))"
  by (simp add: analysis_loop_stats maxH_upto_gt)

lemma decision_engine_events:
  "e \<in> set (decision_engine d mH fT) \<Longrightarrow> is_alert e \<or> is_status e"
  by (auto simp: decision_engine_def Let_def split: if_splits)

lemma input_loop_no_read: "e \<in> set (input_loop buf r) \<Longrightarrow> \<not> is_output_read e \<and> \<not> is_alert e \<and> \<not> is_status e"
  using input_loop_events [of e buf r] by auto



lemma cycle_events_None:
  "cycle_events None w = ForecastCall (bufferFilled w) (readIdx w) # input_loop (historyBuffer w) (readIdx w) @ [ModelRunInference False, InferenceFailed]"
  by (simp add: cycle_events_eq)

lemma cycle_events_Some:
  "cycle_events (Some out) w =
     (ForecastCall (bufferFilled w) (readIdx w) # input_loop (historyBuffer w) (readIdx w)) @
     ModelRunInference True # ForecastHeader # snd (analysis_loop out) @ [AnalysisHeader] @
     decision_engine (fsub (pressure (forecast out 59)) (pressure (forecast out 0)))
       (maxH (fst (analysis_loop out))) (temperature (forecast out 59)) @ [Footer]"
  by (simp add: cycle_events_eq analysis_loop_fields)


lemma cycle_events_None_no_read:
  assumes "e \<in> set (cycle_events None w)"
  shows "\<not> is_output_read e \<and> \<not> is_alert e \<and> \<not> is_status e"
proof -
  from assms consider "e = ForecastCall (bufferFilled w) (readIdx w)"
    | "e \<in> set (input_loop (historyBuffer w) (readIdx w))"
    | "e = ModelRunInference False" | "e = InferenceFailed"
    unfolding cycle_events_None by auto
  then show ?thesis
  proof cases
    case 2
    then show ?thesis by (rule input_loop_no_read)
  qed simp_all
qed

lemma reads_after_invoke:
  assumes "n < length (cycle_events ans w)" "is_output_read (cycle_events ans w ! n)"
  shows "ModelRunInference True \<in> set (take n (cycle_events ans w))"
proof (cases ans)
  case None
  from assms(1) have "cycle_events None w ! n \<in> set (cycle_events None w)"
    unfolding None by (rule nth_mem)
  from cycle_events_None_no_read [OF this] assms(2) show ?thesis
    unfolding None by simp
next
  case (Some out)
  let ?A = "ForecastCall (bufferFilled w) (readIdx w) # input_loop (historyBuffer w) (readIdx w)"
  define B where "B = ForecastHeader # snd (analysis_loop out) @ [AnalysisHeader] @
     decision_engine (fsub (pressure (forecast out 59)) (pressure (forecast out 0)))
       (maxH (fst (analysis_loop out))) (temperature (forecast out 59)) @ [Footer]"
  have ev: "cycle_events ans w = ?A @ ModelRunInference True # B"
    unfolding Some cycle_events_Some B_def ..
  have noA: "\<not> is_output_read e" if "e \<in> set ?A" for e
  proof -
    from that consider "e = ForecastCall (bufferFilled w) (readIdx w)"
      | "e \<in> set (input_loop (historyBuffer w) (readIdx w))" by auto
    then show ?thesis
    proof cases
      case 2
      from input_loop_no_read [OF this] show ?thesis by simp
    qed simp
  qed
  have "\<not> n < length ?A"
  proof
    assume lt: "n < length ?A"
    then have eq: "cycle_events ans w ! n = ?A ! n" unfolding ev by (simp only: nth_append if_True)
    from lt have "?A ! n \<in> set ?A" by (rule nth_mem)
    then have "\<not> is_output_read (?A ! n)" by (rule noA)
    with assms(2) show False unfolding eq by blast
  qed
  moreover have "n \<noteq> length ?A"
  proof
    assume "n = length ?A"
    then have "cycle_events ans w ! n = ModelRunInference True" unfolding ev by (simp only: nth_append_length)
    with assms(2) show False by simp
  qed
  ultimately have gt: "length ?A < n" by linarith
  define k where "k = n - Suc (length ?A)"
  with gt have "n = length ?A + Suc k" by simp
  then have "take n (cycle_events ans w) = ?A @ ModelRunInference True # take k B"
    unfolding ev by simp
  then show ?thesis by simp
qed


lemma length_input_step: "length (input_step buf r i []) = (if i = 0 then 4 else 3)"
  by (simp add: input_step_def Let_def split: prod.split)

lemma length_input_loop: "length (input_loop buf r) = 91"
proof -
  let ?f = "\<lambda>i. length (input_step buf r i [])"
  have split: "[0..<30] = 0 # [1..<30]" by (simp add: upt_conv_Cons)
  have "map ?f [1..<30] = map (\<lambda>i. 3) [1..<30]"
    by (rule map_cong) (simp_all add: length_input_step)
  then have "sum_list (map ?f [1..<30]) = sum_list (map (\<lambda>i. 3) [1..<30])"
    by (rule arg_cong)
  also have "\<dots> = 87" by (simp add: sum_list_triv)
  finally have rest: "sum_list (map ?f [1..<30]) = 87" .
  have "length (input_loop buf r) = sum_list (map ?f [0..<30])"
    by (simp add: input_loop_concat length_concat comp_def HISTORY_STEPS_def)
  also have "\<dots> = ?f 0 + sum_list (map ?f [1..<30])"
    unfolding split by simp
  also have "\<dots> = 91" unfolding rest by (simp add: length_input_step)
  finally show ?thesis .
qed

lemma fold_analyse_prefix:
  "\<exists>rest. snd (fold (analyse_step out) xs (s, es)) = es @ rest"
proof (induction xs arbitrary: s es)
  case Nil
  show ?case by simp
next
  case (Cons x xs)
  obtain s' where st: "analyse_step out x (s, es) = (s', es @ snd (analyse_step out x (stats0, [])))"
    using analyse_step_snd [of out x s es] by (cases "analyse_step out x (s, es)") simp
  from Cons.IH [of s' "es @ snd (analyse_step out x (stats0, []))"]
  show ?case by (auto simp: st)
qed

lemma analysis_loop_first:
  "\<exists>rest. snd (analysis_loop out) = ModelGetOutput 0 (out 0) # rest"
proof -
  have "[0..<60] = 0 # [1..<60]" by (simp add: upt_conv_Cons)
  then have "analysis_loop out = fold (analyse_step out) [1..<60] (analyse_step out 0 (stats0, []))"
    by (simp add: analysis_loop_def PREDICT_STEPS_def)
  moreover have "\<exists>more. snd (analyse_step out 0 (stats0, [])) = ModelGetOutput 0 (out 0) # more"
    by (simp add: analyse_step_def Let_def)
  ultimately show ?thesis
    using fold_analyse_prefix [of out "[1..<60]" "fst (analyse_step out 0 (stats0, []))" "snd (analyse_step out 0 (stats0, []))"]
    by auto
qed

lemma first_output_read:
  "94 < length (cycle_events (Some out) w) \<and> cycle_events (Some out) w ! 94 = ModelGetOutput 0 (out 0)"
proof -
  obtain rest where r: "snd (analysis_loop out) = ModelGetOutput 0 (out 0) # rest"
    using analysis_loop_first by blast
  let ?A = "ForecastCall (bufferFilled w) (readIdx w) # input_loop (historyBuffer w) (readIdx w)
             @ [ModelRunInference True, ForecastHeader]"
  have len: "length ?A = 94" by (simp add: length_input_loop)
  have "\<exists>B. cycle_events (Some out) w = ?A @ ModelGetOutput 0 (out 0) # B"
    by (simp add: cycle_events_Some r)
  then obtain B where ev: "cycle_events (Some out) w = ?A @ ModelGetOutput 0 (out 0) # B" ..
  have "(?A @ ModelGetOutput 0 (out 0) # B) ! length ?A = ModelGetOutput 0 (out 0)"
    by (rule nth_append_length)
  moreover have "length (?A @ ModelGetOutput 0 (out 0) # B) > length ?A" by simp
  ultimately show ?thesis unfolding ev len by simp
qed

text \<open>
  C5. When the inference fails, the cycle ends with the failure message: what it
  has logged holds no read of the output tensor, no alert and no status line, and
  the buffer, its head and its flag are as before (the normalization constants are
  constants). In any cycle, a read of the output tensor comes after a successful
  \<^verbatim>\<open>ModelRunInference\<close> of the same cycle.
\<close>

theorem inference_failure_stops_cycle:
  "log (runForecast None w) = log w @ cycle_events None w
   \<and> (\<forall>e \<in> set (cycle_events None w). \<not> is_output_read e \<and> \<not> is_alert e \<and> \<not> is_status e)
   \<and> last (cycle_events None w) = InferenceFailed
   \<and> historyBuffer (runForecast None w) = historyBuffer w
   \<and> bufferHead (runForecast None w) = bufferHead w
   \<and> bufferFilled (runForecast None w) = bufferFilled w
   \<and> (\<forall>n < length (cycle_events ans w). is_output_read (cycle_events ans w ! n) \<longrightarrow>
         ModelRunInference True \<in> set (take n (cycle_events ans w)))"
proof (intro conjI ballI allI impI)
  show "log (runForecast None w) = log w @ cycle_events None w"
    by (rule log_runForecast)
  show "last (cycle_events None w) = InferenceFailed"
    by (simp add: cycle_events_None)
  show "historyBuffer (runForecast None w) = historyBuffer w"
    "bufferHead (runForecast None w) = bufferHead w"
    "bufferFilled (runForecast None w) = bufferFilled w"
    by (rule runForecast_fields)+
next
  fix e assume "e \<in> set (cycle_events None w)"
  from cycle_events_None_no_read [OF this]
  show "\<not> is_output_read e" "\<not> is_alert e" "\<not> is_status e" by blast+
next
  fix n assume "n < length (cycle_events ans w)" "is_output_read (cycle_events ans w ! n)"
  then show "ModelRunInference True \<in> set (take n (cycle_events ans w))"
    by (rule reads_after_invoke)
qed

theorem inference_failure_stops_cycle_witness:
  "InferenceFailed \<in> set (cycle_events None init_world)
   \<and> \<not> is_output_read InferenceFailed
   \<and> historyBuffer (runForecast None init_world) = historyBuffer init_world
   \<and> 94 < length (cycle_events (Some (\<lambda>i. Val 0)) init_world)
   \<and> is_output_read (cycle_events (Some (\<lambda>i. Val 0)) init_world ! 94)
   \<and> ModelRunInference True \<in> set (take 94 (cycle_events (Some (\<lambda>i. Val 0)) init_world))"
proof -
  note main = inference_failure_stops_cycle [of init_world "Some (\<lambda>i. Val 0)"]
  have mem: "InferenceFailed \<in> set (cycle_events None init_world)"
    by (simp add: cycle_events_None)
  have rd: "94 < length (cycle_events (Some (\<lambda>i. Val 0)) init_world)"
    "is_output_read (cycle_events (Some (\<lambda>i. Val 0)) init_world ! 94)"
    using first_output_read [of "\<lambda>i. Val 0" init_world] by simp_all
  from main rd have "ModelRunInference True \<in> set (take 94 (cycle_events (Some (\<lambda>i. Val 0)) init_world))"
    by blast
  with main mem rd show ?thesis by simp
qed

lemma cycle_events_Some_set:
  "set (cycle_events (Some out) w) =
     {ForecastCall (bufferFilled w) (readIdx w), ModelRunInference True, ForecastHeader, AnalysisHeader, Footer}
     \<union> set (input_loop (historyBuffer w) (readIdx w)) \<union> set (snd (analysis_loop out))
     \<union> set (decision_engine (fsub (pressure (forecast out 59)) (pressure (forecast out 0)))
       (maxH (fst (analysis_loop out))) (temperature (forecast out 59)))"
  unfolding cycle_events_Some by auto

lemma alert_in_cycle:
  assumes "is_alert e \<or> is_status e"
  shows "e \<in> set (cycle_events (Some out) w) \<longleftrightarrow>
     e \<in> set (decision_engine (fsub (pressure (forecast out 59)) (pressure (forecast out 0)))
       (maxH (fst (analysis_loop out))) (temperature (forecast out 59)))"
proof -
  have "e \<notin> set (input_loop (historyBuffer w) (readIdx w))"
    using input_loop_no_read [of e] assms by blast
  moreover have "e \<notin> set (snd (analysis_loop out))"
    using analysis_loop_events [of e out] assms by auto
  moreover have "e \<notin> {ForecastCall (bufferFilled w) (readIdx w), ModelRunInference True, ForecastHeader, AnalysisHeader, Footer}"
    using assms by auto
  ultimately show ?thesis unfolding cycle_events_Some_set by blast
qed

lemma rain_rule:
  "RainLikely \<in> set (decision_engine d mH fT) \<longleftrightarrow> flt d (Val (- 0.3)) \<and> fgt mH (Val 85)"
  by (simp add: decision_engine_def Let_def)

lemma max_humidity_gt:
  assumes "\<forall>s<PREDICT_STEPS. humidity (forecast out s) = Val (H s)"
  shows "fgt (maxH (fst (analysis_loop out))) (Val 85) \<longleftrightarrow> Max (H ` {..<PREDICT_STEPS}) > 85"
proof -
  have "fgt (maxH (fst (analysis_loop out))) (Val 85) \<longleftrightarrow> (\<exists>i<60. fgt (humidity (forecast out i)) (Val 85))"
    by (rule analysis_loop_maxH) simp
  also have "\<dots> \<longleftrightarrow> (\<exists>i<60. H i > 85)"
  proof -
    have "fgt (humidity (forecast out i)) (Val 85) \<longleftrightarrow> H i > 85" if "i < 60" for i
      using assms that by (simp add: PREDICT_STEPS_def)
    then show ?thesis by blast
  qed
  also have "\<dots> \<longleftrightarrow> (\<exists>a \<in> H ` {..<60}. 85 < a)" by auto
  also have "\<dots> \<longleftrightarrow> 85 < Max (H ` {..<60})"
  proof (rule Max_gr_iff [symmetric])
    show "finite (H ` {..<60})" by simp
    have "H 0 \<in> H ` {..<60}" by simp
    then show "H ` {..<60} \<noteq> {}" by blast
  qed
  finally show ?thesis by (simp add: PREDICT_STEPS_def)
qed

lemma forecast_zero_out:
  "forecast zero_out s = (Val (3388067 / 131072), Val (9396145 / 131072), Val (4154735 / 4096))"
  by (simp add: forecast_def zero_out_def MEANS_vals STDS_vals denormalize_def round32_0 round32_vals)

lemma storm_rule:
  "StormWarning \<in> set (decision_engine d mH fT) \<longleftrightarrow> flt d (Val (- 0.8))"
  by (simp add: decision_engine_def Let_def)

lemma no_storm_zero_out: "StormWarning \<notin> set (cycle_events (Some zero_out) w)"
proof -
  have "StormWarning \<in> set (cycle_events (Some zero_out) w) \<longleftrightarrow>
     StormWarning \<in> set (decision_engine (fsub (pressure (forecast zero_out 59)) (pressure (forecast zero_out 0)))
       (maxH (fst (analysis_loop zero_out))) (temperature (forecast zero_out 59)))"
    by (rule alert_in_cycle) simp
  then show ?thesis by (simp add: storm_rule forecast_zero_out round32_0)
qed

lemma input_step_window:
  assumes "i < 30"
  shows "input_step (historyBuffer w) (readIdx w) i [] = input_step (window w) 0 i []"
proof -
  from assms have "bufPos 0 i = i" by (simp add: bufPos_def HISTORY_STEPS_def)
  moreover from assms have "window w ! i = historyBuffer w ! bufPos (readIdx w) i"
    by (simp add: window_nth bufPos_def HISTORY_STEPS_def)
  ultimately show ?thesis by (simp add: input_step_def)
qed

lemma input_loop_window:
  "input_loop (historyBuffer w) (readIdx w) = input_loop (window w) 0"
proof -
  have "map (\<lambda>i. input_step (historyBuffer w) (readIdx w) i []) [0..<30]
      = map (\<lambda>i. input_step (window w) 0 i []) [0..<30]"
    by (rule map_cong) (simp_all add: input_step_window)
  then have "concat (map (\<lambda>i. input_step (historyBuffer w) (readIdx w) i []) [0..<30])
      = concat (map (\<lambda>i. input_step (window w) 0 i []) [0..<30])"
    by (rule arg_cong)
  then show ?thesis unfolding input_loop_concat HISTORY_STEPS_def .
qed

section \<open>The window\<close>

text \<open>
  C3, as claimed for fewer than 30 inserts, fails: after one insert the window
  that \<open>runForecast\<close> reads is not that one reading alone.
\<close>

theorem window_short_counterexample:
  "window (addReadings [(Val 1, Val 2, Val 3)] init_world) \<noteq> [(Val 1, Val 2, Val 3)]"
proof -
  have "length (window (addReadings [(Val 1, Val 2, Val 3)] init_world)) = 30"
    by (rule length_window)
  then show ?thesis by auto
qed

text \<open>
  C3, amended. After K inserts from start-up the window read for inference
  always has 30 rows: for K of at least 30 they are the last 30 readings inserted,
  oldest first; for K below 30 they are the K readings inserted, oldest first,
  followed by the 30 - K rows of zeros that the buffer still holds from start-up.
  The window is what the input loop reads: in any state, running the loop on the
  buffer from \<open>readIdx\<close> is running it on the window from its first row.
\<close>

theorem window_order:
  "window (addReadings rs init_world) =
     (if HISTORY_STEPS \<le> length rs then drop (length rs - HISTORY_STEPS) rs
      else rs @ replicate (HISTORY_STEPS - length rs) zero_row)
   \<and> input_loop (historyBuffer w) (readIdx w) = input_loop (window w) 0"
proof (cases "30 \<le> length rs")
  case True
  with window_filled [OF ring_inv_init] show ?thesis
    by (simp add: HISTORY_STEPS_def input_loop_window)
next
  case False
  then have "length rs < 30" by simp
  from window_partial [OF ring_inv_init this] False
  show ?thesis by (simp add: HISTORY_STEPS_def input_loop_window)
qed

theorem window_order_witness:
  "window (addReadings [(Val 1, Val 2, Val 3), (Val 4, Val 5, Val 6)] init_world)
     = [(Val 1, Val 2, Val 3), (Val 4, Val 5, Val 6)] @ replicate 28 zero_row
   \<and> window (addReadings ((Val 1, Val 2, Val 3) # prefillData) init_world) = prefillData"
proof -
  have "length prefillData = 30" by (simp add: prefillData_def)
  with window_order [of "[(Val 1, Val 2, Val 3), (Val 4, Val 5, Val 6)]" init_world]
    window_order [of "(Val 1, Val 2, Val 3) # prefillData" init_world]
  show ?thesis by (simp add: HISTORY_STEPS_def)
qed

section \<open>The program\<close>

lemma addReadings_keeps:
  "log (addReadings rs w) = log w" "lastReadingTime (addReadings rs w) = lastReadingTime w"
proof (induction rs rule: rev_induct)
  case Nil
  show "log (addReadings [] w) = log w" "lastReadingTime (addReadings [] w) = lastReadingTime w"
    by (simp_all add: addReadings_def)
next
  case (snoc r rs)
  obtain t h p where r: "r = (t, h, p)" by (cases r)
  show "log (addReadings (rs @ [r]) w) = log w"
    "lastReadingTime (addReadings (rs @ [r]) w) = lastReadingTime w"
    unfolding r addReadings_snoc by (simp_all add: addReading_fields snoc)
qed

lemma length_prefillData: "length prefillData = 30"
  by (simp add: prefillData_def)

lemma ring_inv_prefill:
  "ring_inv (replicate 30 zero_row) prefillData (addReadings prefillData (emit es init_world))"
  using ring_inv_addReadings [of "emit es init_world" prefillData]
  by (simp add: emit_fields init_world_fields HISTORY_STEPS_def)

lemma prefilled_fields:
  "bufferFilled (addReadings prefillData (emit es init_world))"
  "bufferHead (addReadings prefillData (emit es init_world)) = 0"
  "length (historyBuffer (addReadings prefillData (emit es init_world))) = 30"
  "log (addReadings prefillData (emit es init_world)) = es"
  "lastReadingTime (addReadings prefillData (emit es init_world)) = 0"
  using ring_invD(1,2,3) [OF ring_inv_prefill, of es]
  by (simp_all add: length_prefillData addReadings_keeps emit_fields init_world_fields)

lemma after_prefill_fields:
  "bufferFilled after_prefill"
  "bufferHead after_prefill = 0"
  "length (historyBuffer after_prefill) = 30"
  "log after_prefill = [Banner, BmeInitialized, ModelLoaded, Prefilling, BufferReady]"
  "lastReadingTime after_prefill = 0"
  by (simp_all add: after_prefill_def emit_fields prefilled_fields)

lemma setup_sketch_cases:
  "setup_sketch b =
     (if \<not> serialUp b then Halted []
      else if \<not> bme0x76 b \<and> \<not> bme0x77 b then Halted [Banner, BmeNotFound]
      else if \<not> modelInit b then Halted [Banner, BmeInitialized, ModelInitFailed]
      else Running (runForecast (firstInference b) after_prefill))"
  by (simp add: setup_sketch_def Let_def after_prefill_def emit_def init_world_fields)

lemma loop_fire:
  assumes "millis1 k - lastReadingTime w > 60000" "\<not> isnan (readTemperature k)"
  shows "loop k w = runForecast (inference k)
     (addReading (readTemperature k) (readHumidity k) (fdiv (readPressure k) (Val 100))
        (emit [Live (readTemperature k)] (w\<lparr> lastReadingTime := millis2 k \<rparr>)))"
  using assms by (simp add: loop_def Let_def)

lemma loop_idle:
  assumes "\<not> (millis1 k - lastReadingTime w > 60000 \<and> \<not> isnan (readTemperature k))"
  shows "historyBuffer (loop k w) = historyBuffer w \<and> bufferHead (loop k w) = bufferHead w
     \<and> bufferFilled (loop k w) = bufferFilled w \<and> log (loop k w) = log w"
  using assms by (auto simp: loop_def Let_def)

lemma cycle_calls:
  assumes "ForecastCall f r \<in> set (cycle_events ans w)"
  shows "f = bufferFilled w"
proof (cases ans)
  case None
  from assms input_loop_events [of "ForecastCall f r" "historyBuffer w" "readIdx w"]
  show ?thesis unfolding None cycle_events_None by auto
next
  case (Some out)
  from assms input_loop_events [of "ForecastCall f r" "historyBuffer w" "readIdx w"]
    analysis_loop_events [of "ForecastCall f r" out]
    decision_engine_events [of "ForecastCall f r"]
  show ?thesis unfolding Some cycle_events_Some_set by auto
qed

lemma filled_inv_runForecast:
  assumes "bufferFilled w" "calls_filled (log w)"
  shows "filled_inv (runForecast ans w)"
  using assms cycle_calls [of _ _ ans w]
  unfolding filled_inv_def calls_filled_def log_runForecast runForecast_fields
  by auto

lemma filled_inv_loop:
  assumes "filled_inv w"
  shows "filled_inv (loop k w)"
proof (cases "millis1 k - lastReadingTime w > 60000 \<and> \<not> isnan (readTemperature k)")
  case True
  let ?w = "addReading (readTemperature k) (readHumidity k) (fdiv (readPressure k) (Val 100))
        (emit [Live (readTemperature k)] (w\<lparr> lastReadingTime := millis2 k \<rparr>))"
  from assms have "bufferFilled ?w" "calls_filled (log ?w)"
    by (auto simp: filled_inv_def addReading_fields emit_fields calls_filled_def)
  then have "filled_inv (runForecast (inference k) ?w)" by (rule filled_inv_runForecast)
  with True show ?thesis by (simp add: loop_fire)
next
  case False
  from loop_idle [OF False] assms show ?thesis by (simp add: filled_inv_def)
qed

lemma filled_inv_fold: "filled_inv w \<Longrightarrow> filled_inv (fold loop ks w)"
  by (induction ks arbitrary: w) (simp_all add: filled_inv_loop)

lemma filled_inv_setup: "filled_inv (runForecast ans after_prefill)"
  by (rule filled_inv_runForecast) (simp_all add: after_prefill_fields calls_filled_def)

lemma run_cases:
  "run b ks =
     (if \<not> serialUp b then Halted []
      else if \<not> bme0x76 b \<and> \<not> bme0x77 b then Halted [Banner, BmeNotFound]
      else if \<not> modelInit b then Halted [Banner, BmeInitialized, ModelInitFailed]
      else Running (fold loop ks (runForecast (firstInference b) after_prefill)))"
  by (simp add: run_def setup_sketch_cases)

lemma run_good_boot:
  "run good_boot ks = Running (fold loop ks (runForecast (Some zero_out) after_prefill))"
  by (simp add: run_cases good_boot_def)

lemma first_call_logged:
  "ForecastCall True 0 \<in> set (log (runForecast ans after_prefill))"
  by (simp add: log_runForecast cycle_events_eq after_prefill_fields readIdx_def)

lemma log_loop_mono: "set (log w) \<subseteq> set (log (loop k w))"
  by (auto simp: loop_def Let_def log_runForecast addReading_fields emit_fields)

text \<open>
  C10. The pre-fill table has 30 rows. In every run of the program, after any
  number of calls of \<open>loop\<close>, no call of \<open>runForecast\<close> has met
  \<open>bufferFilled\<close> false (so none has read from slot 0 over a partly filled
  buffer), and the flag is set while the program runs.
\<close>

theorem forecast_always_filled:
  "length prefillData = HISTORY_STEPS
   \<and> ForecastCall False r \<notin> set (trace (run b ks))
   \<and> (\<forall>w. run b ks = Running w \<longrightarrow> bufferFilled w)"
proof -
  have inv: "filled_inv (fold loop ks (runForecast (firstInference b) after_prefill))"
    by (rule filled_inv_fold [OF filled_inv_setup])
  then have "calls_filled (trace (run b ks))"
    by (simp add: run_cases trace_def filled_inv_def) (simp add: calls_filled_def)
  then have "ForecastCall False r \<notin> set (trace (run b ks))"
    unfolding calls_filled_def by blast
  moreover have "bufferFilled w" if "run b ks = Running w" for w
    using that inv by (simp add: run_cases filled_inv_def split: if_splits)
  ultimately show ?thesis by (simp add: length_prefillData HISTORY_STEPS_def)
qed

theorem forecast_always_filled_witness:
  "(\<exists>w. run good_boot [live_tick] = Running w \<and> bufferFilled w)
   \<and> ForecastCall True 0 \<in> set (trace (run good_boot [live_tick]))
   \<and> ForecastCall False 0 \<notin> set (trace (run good_boot [live_tick]))"
proof -
  note main = forecast_always_filled [of 0 good_boot "[live_tick]"]
  have "ForecastCall True 0 \<in> set (trace (run good_boot [live_tick]))"
    using first_call_logged [of "Some zero_out"] log_loop_mono [of "runForecast (Some zero_out) after_prefill" live_tick]
    by (auto simp: run_good_boot trace_def)
  with main show ?thesis by (simp add: run_good_boot)
qed

lemma input_step_in_loop:
  assumes "i < 30"
  shows "set (input_step buf r i []) \<subseteq> set (input_loop buf r)"
  using assms unfolding input_loop_concat HISTORY_STEPS_def by auto

lemma first_live_cycle:
  assumes "readTemperature k = Val t" "millis1 k = 70000"
  shows "loop k (runForecast ans after_prefill) =
     runForecast (inference k)
       (addReading (Val t) (readHumidity k) (fdiv (readPressure k) (Val 100))
          (emit [Live (Val t)] ((runForecast ans after_prefill)\<lparr> lastReadingTime := millis2 k \<rparr>)))"
proof -
  have "millis1 k - lastReadingTime (runForecast ans after_prefill) > 60000"
    by (simp add: assms runForecast_fields after_prefill_fields)
  moreover have "\<not> isnan (readTemperature k)" by (simp add: assms)
  ultimately show ?thesis using loop_fire [of k "runForecast ans after_prefill"] assms by simp
qed

lemma first_live_world:
  assumes w_def: "w = addReading t h p (emit [Live t] ((runForecast ans after_prefill)\<lparr> lastReadingTime := m \<rparr>))"
  shows "bufferHead w = 1" "bufferFilled w" "readIdx w = 1"
    "historyBuffer w = (historyBuffer after_prefill)[0 := (t, h, p)]"
    "latest w = (t, h, p)"
    "log w = log after_prefill @ cycle_events ans after_prefill @ [Live t]"
proof -
  show 1: "bufferHead w = 1" and 2: "bufferFilled w"
    by (simp_all add: w_def addReading_fields emit_fields runForecast_fields after_prefill_fields HISTORY_STEPS_def)
  from 1 2 show "readIdx w = 1" by (simp add: readIdx_def)
  show 3: "historyBuffer w = (historyBuffer after_prefill)[0 := (t, h, p)]"
    by (simp add: w_def addReading_fields emit_fields runForecast_fields after_prefill_fields)
  show "latest w = (t, h, p)"
    by (simp add: latest_def 1 3 HISTORY_STEPS_def after_prefill_fields)
  show "log w = log after_prefill @ cycle_events ans after_prefill @ [Live t]"
    by (simp add: w_def addReading_fields emit_fields log_runForecast)
qed

text \<open>
  C4, where the code departs from it. After a good boot, a tick whose humidity
  read is not-a-number while the temperature read is 25: the reading is inserted
  as it is, and the forecast runs and hands not-a-number to the model as input 88.
\<close>

theorem nan_humidity_is_inserted:
  "\<exists>w. run good_boot [nan_tick] = Running w
       \<and> latest w = (Val 25, NaN, Val 1011)
       \<and> ModelSetInput NaN 88 \<in> set (log w)"
proof -
  let ?w5 = "runForecast (Some zero_out) after_prefill"
  let ?w6 = "addReading (Val 25) NaN (Val 1011) (emit [Live (Val 25)] (?w5\<lparr> lastReadingTime := 70000 \<rparr>))"
  have run: "run good_boot [nan_tick] = Running (runForecast (Some zero_out) ?w6)"
    using first_live_cycle [of nan_tick 25 "Some zero_out"]
    by (simp add: run_good_boot nan_tick_def round32_vals)
  note f = first_live_world [where t = "Val 25" and h = NaN and p = "Val 1011" and ans = "Some zero_out" and m = 70000, OF refl]
  have "latest (runForecast (Some zero_out) ?w6) = latest ?w6"
    by (simp add: latest_def runForecast_fields)
  then have l: "latest (runForecast (Some zero_out) ?w6) = (Val 25, NaN, Val 1011)"
    by (simp add: f)
  have "historyBuffer ?w6 ! bufPos 1 29 = (Val 25, NaN, Val 1011)"
    by (simp add: f bufPos_def HISTORY_STEPS_def after_prefill_fields)
  then have "ModelSetInput NaN 88 \<in> set (input_step (historyBuffer ?w6) 1 29 [])"
    by (simp add: input_step_def Let_def normalize_def FEATURES_def)
  with input_step_in_loop [of 29 "historyBuffer ?w6" 1]
  have "ModelSetInput NaN 88 \<in> set (input_loop (historyBuffer ?w6) (readIdx ?w6))"
    by (auto simp: f)
  then have "ModelSetInput NaN 88 \<in> set (log (runForecast (Some zero_out) ?w6))"
    by (simp add: log_runForecast cycle_events_Some)
  with run l show ?thesis by blast
qed

section \<open>What the decision engine is given\<close>

text \<open>
  C1, as claimed, fails. After a good boot and one tick with the live reading
  (25, 70, 1016) and a forecast of the mean reading at every step, the log holds
  no storm warning; with the live pressure as "now" the change would be that of
  1014.3396 to 1016, below -0.8, and the storm rule would have fired.
\<close>

theorem pressureNow_live_counterexample:
  "\<exists>w. run good_boot [live_tick] = Running w
       \<and> latest w = (Val 25, Val 70, Val 1016)
       \<and> StormWarning \<notin> set (log w)
       \<and> StormWarning \<in> set (decision_engine
             (fsub (pressure (forecast zero_out (PREDICT_STEPS - 1))) (pressure (latest w)))
             (maxH (fst (analysis_loop zero_out)))
             (temperature (forecast zero_out (PREDICT_STEPS - 1))))"
proof -
  let ?w5 = "runForecast (Some zero_out) after_prefill"
  let ?w6 = "addReading (Val 25) (Val 70) (Val 1016) (emit [Live (Val 25)] (?w5\<lparr> lastReadingTime := 70000 \<rparr>))"
  let ?w7 = "runForecast (Some zero_out) ?w6"
  have run: "run good_boot [live_tick] = Running ?w7"
    using first_live_cycle [of live_tick 25 "Some zero_out"]
    by (simp add: run_good_boot live_tick_def round32_vals)
  note f = first_live_world [where t = "Val 25" and h = "Val 70" and p = "Val 1016" and ans = "Some zero_out" and m = 70000, OF refl]
  have "latest ?w7 = latest ?w6"
    by (simp add: latest_def runForecast_fields)
  then have l: "latest ?w7 = (Val 25, Val 70, Val 1016)"
    by (simp add: f)
  have "log ?w7 = log after_prefill @ cycle_events (Some zero_out) after_prefill @ [Live (Val 25)]
      @ cycle_events (Some zero_out) ?w6"
    by (simp add: log_runForecast [of _ ?w6] f)
  then have n: "StormWarning \<notin> set (log ?w7)"
    by (simp add: no_storm_zero_out after_prefill_fields)
  have "StormWarning \<in> set (decision_engine
             (fsub (pressure (forecast zero_out (PREDICT_STEPS - 1))) (pressure (latest ?w7)))
             (maxH (fst (analysis_loop zero_out)))
             (temperature (forecast zero_out (PREDICT_STEPS - 1))))"
    by (simp add: storm_rule l forecast_zero_out round32_vals)
  with run l n show ?thesis by blast
qed

text \<open>
  C1, amended. In every cycle whose inference succeeds, the "now" pressure of the
  decision engine is the denormalized pressure of forecast step 0 and the "future"
  pressure that of step 59; the cycle ends with the decisions for their
  difference, whatever the buffer holds.
\<close>

theorem pressureNow_is_forecast_step0:
  "currentP (fst (analysis_loop out)) = pressure (forecast out 0)
   \<and> futureP (fst (analysis_loop out)) = pressure (forecast out (PREDICT_STEPS - 1))
   \<and> cycle_events (Some out) w =
       ForecastCall (bufferFilled w) (readIdx w) # input_loop (historyBuffer w) (readIdx w) @
       [ModelRunInference True, ForecastHeader] @ snd (analysis_loop out) @ [AnalysisHeader] @
       decision_engine (fsub (pressure (forecast out (PREDICT_STEPS - 1))) (pressure (forecast out 0)))
         (maxH (fst (analysis_loop out))) (temperature (forecast out (PREDICT_STEPS - 1))) @ [Footer]"
  by (simp add: analysis_loop_fields cycle_events_Some PREDICT_STEPS_def)

theorem pressureNow_is_forecast_step0_witness:
  "currentP (fst (analysis_loop zero_out)) = Val (4154735 / 4096)
   \<and> futureP (fst (analysis_loop zero_out)) = Val (4154735 / 4096)
   \<and> StatusStable \<in> set (cycle_events (Some zero_out) init_world)"
proof -
  note main = pressureNow_is_forecast_step0 [of zero_out init_world]
  have "StatusStable \<in> set (decision_engine (fsub (pressure (forecast zero_out (PREDICT_STEPS - 1)))
      (pressure (forecast zero_out 0))) (maxH (fst (analysis_loop zero_out)))
      (temperature (forecast zero_out (PREDICT_STEPS - 1))))"
    by (simp add: forecast_zero_out decision_engine_def Let_def round32_0)
  with main show ?thesis by (simp add: forecast_zero_out)
qed

text \<open>
  C6. Let the forecast humidity of every one of the 60 steps be a number. Then the
  rain rule fires exactly when the pressure change is below -0.3 and the largest
  of the 60 forecast humidities, of whatever sign, is above 85: for any pressure
  change handed to the engine, and in a whole cycle, where the change is the
  forecast pressure of step 59 less that of step 0.
\<close>

theorem rain_likely_iff:
  assumes "\<forall>s<PREDICT_STEPS. humidity (forecast out s) = Val (H s)"
  shows "(RainLikely \<in> set (decision_engine (Val d) (maxH (fst (analysis_loop out))) fT) \<longleftrightarrow>
            d < - 0.3 \<and> Max (H ` {..<PREDICT_STEPS}) > 85.0)
       \<and> (RainLikely \<in> set (cycle_events (Some out) w) \<longleftrightarrow>
            flt (fsub (pressure (forecast out 59)) (pressure (forecast out 0))) (Val (- 0.3))
            \<and> Max (H ` {..<PREDICT_STEPS}) > 85.0)"
proof -
  have "RainLikely \<in> set (cycle_events (Some out) w) \<longleftrightarrow>
     RainLikely \<in> set (decision_engine (fsub (pressure (forecast out 59)) (pressure (forecast out 0)))
       (maxH (fst (analysis_loop out))) (temperature (forecast out 59)))"
    by (rule alert_in_cycle) simp
  then show ?thesis
    unfolding rain_rule max_humidity_gt [OF assms] by simp
qed


theorem rain_likely_iff_witness:
  "RainLikely \<in> set (cycle_events (Some humid_out) init_world)
   \<and> RainLikely \<in> set (decision_engine (Val (- 0.5)) (maxH (fst (analysis_loop humid_out))) (Val 20))
   \<and> Max ((\<lambda>s. 5778289 / 65536) ` {..<PREDICT_STEPS}) > (85.0 :: real)"
proof -
  have "humid_out (s * 3 + 1) = Val 2" for s
  proof -
    have "(s * 3 + 1) mod 3 = 1 mod 3" by (rule mod_mult_self3)
    moreover have "s * 3 + 1 \<noteq> 2" by arith
    ultimately show ?thesis by (simp add: humid_out_def)
  qed
  then have hyp: "\<forall>s<PREDICT_STEPS. humidity (forecast humid_out s) = Val ((\<lambda>s. 5778289 / 65536) s)"
    by (simp add: forecast_def FEATURES_def MEANS_vals STDS_vals denormalize_def round32_vals)
  have "(0::nat) \<in> {..<PREDICT_STEPS}" by (simp add: PREDICT_STEPS_def)
  then have "{..<PREDICT_STEPS} \<noteq> {}" by blast
  then have "(\<lambda>s::nat. 5778289 / 65536 :: real) ` {..<PREDICT_STEPS} = {5778289 / 65536}"
    by (simp add: image_constant_conv)
  then have mx: "Max ((\<lambda>s::nat. 5778289 / 65536 :: real) ` {..<PREDICT_STEPS}) > 85.0" by simp
  have dp: "flt (fsub (pressure (forecast humid_out 59)) (pressure (forecast humid_out 0))) (Val (- 0.3))"
    by (simp add: forecast_def humid_out_def FEATURES_def MEANS_vals STDS_vals denormalize_def
        round32_0 round32_vals)
  from rain_likely_iff [OF hyp, of "- 0.5" "Val 20" init_world] mx dp
  show ?thesis by simp
qed

end
